theory Spec2Isabelle
  imports Complex_Main "HOL-Library.Monad_Syntax"
begin

section \<open>Numbers and the graphics library's primitives\<close>

text \<open>
  The program is TypeScript; every \<^verbatim>\<open>number\<close> is modelled as a \<^typ>\<open>real\<close>, so
  the arithmetic below is exact (rounding of IEEE doubles is outside this development).
  A property access on \<^verbatim>\<open>undefined\<close> throws a TypeError; such a throw is the value
  \<^term>\<open>None\<close> of an option type.

  The vector, quaternion, matrix and colour classes come from the three.js library, which
  is not part of the repository. Their methods are written out here after the operations
  the repository's code calls.
\<close>

record Vector3 =
  vx :: real
  vy :: real
  vz :: real

record Quaternion =
  qx :: real
  qy :: real
  qz :: real
  qw :: real

record Euler =
  ex :: real
  ey :: real
  ez :: real

record Color =
  cr :: real
  cg :: real
  cb :: real

text \<open>Modelled from the spec: \<^verbatim>\<open>Math.hypot\<close> with two arguments, the language's built-in
  Euclidean norm.\<close>

definition hypot :: "real \<Rightarrow> real \<Rightarrow> real" where
  "hypot a b = sqrt (a * a + b * b)"

text \<open>Modelled from the spec: \<^verbatim>\<open>Math.atan2(y, x)\<close>, the angle of the point (x, y) in
  the interval from -pi (exclusive) to pi; signed zeros are not distinguished.\<close>

definition atan2 :: "real \<Rightarrow> real \<Rightarrow> real" where
  "atan2 y x =
     (if 0 < x then arctan (y / x)
      else if x < 0 then (if 0 \<le> y then arctan (y / x) + pi else arctan (y / x) - pi)
      else if 0 < y then pi / 2
      else if y < 0 then - (pi / 2)
      else 0)"

text \<open>Modelled from the spec: \<^verbatim>\<open>THREE.MathUtils.lerp(x, y, t)\<close>, linear interpolation
  of two numbers.\<close>

definition lerp :: "real \<Rightarrow> real \<Rightarrow> real \<Rightarrow> real" where
  "lerp x y t = (1 - t) * x + t * y"

text \<open>Modelled from the spec: the methods of \<^verbatim>\<open>THREE.Vector3\<close> the code calls
  (\<^verbatim>\<open>distanceTo\<close>, \<^verbatim>\<open>addVectors\<close>, \<^verbatim>\<open>subVectors\<close>, \<^verbatim>\<open>multiplyScalar\<close>,
  \<^verbatim>\<open>crossVectors\<close>, \<^verbatim>\<open>length\<close>, \<^verbatim>\<open>normalize\<close>, \<^verbatim>\<open>lerp\<close>). The library's
  \<^verbatim>\<open>normalize\<close> divides by \<^verbatim>\<open>length() || 1\<close>, so the zero vector stays zero.\<close>

definition distanceTo :: "Vector3 \<Rightarrow> Vector3 \<Rightarrow> real" where
  "distanceTo a b =
     sqrt ((vx a - vx b) * (vx a - vx b) + (vy a - vy b) * (vy a - vy b)
           + (vz a - vz b) * (vz a - vz b))"

definition addVectors :: "Vector3 \<Rightarrow> Vector3 \<Rightarrow> Vector3" where
  "addVectors a b = \<lparr>vx = vx a + vx b, vy = vy a + vy b, vz = vz a + vz b\<rparr>"

definition subVectors :: "Vector3 \<Rightarrow> Vector3 \<Rightarrow> Vector3" where
  "subVectors a b = \<lparr>vx = vx a - vx b, vy = vy a - vy b, vz = vz a - vz b\<rparr>"

definition multiplyScalar :: "Vector3 \<Rightarrow> real \<Rightarrow> Vector3" where
  "multiplyScalar a s = \<lparr>vx = vx a * s, vy = vy a * s, vz = vz a * s\<rparr>"

definition crossVectors :: "Vector3 \<Rightarrow> Vector3 \<Rightarrow> Vector3" where
  "crossVectors a b =
     \<lparr>vx = vy a * vz b - vz a * vy b,
      vy = vz a * vx b - vx a * vz b,
      vz = vx a * vy b - vy a * vx b\<rparr>"

definition lengthV :: "Vector3 \<Rightarrow> real" where
  "lengthV a = sqrt (vx a * vx a + vy a * vy a + vz a * vz a)"

definition normalize :: "Vector3 \<Rightarrow> Vector3" where
  "normalize a =
     (let l = (if lengthV a = 0 then 1 else lengthV a)
      in \<lparr>vx = vx a / l, vy = vy a / l, vz = vz a / l\<rparr>)"

definition lerpV :: "Vector3 \<Rightarrow> Vector3 \<Rightarrow> real \<Rightarrow> Vector3" where
  "lerpV a v alpha =
     \<lparr>vx = vx a + (vx v - vx a) * alpha,
      vy = vy a + (vy v - vy a) * alpha,
      vz = vz a + (vz v - vz a) * alpha\<rparr>"

text \<open>Modelled from the spec: \<^verbatim>\<open>THREE.Color.lerp\<close>, the same blend on the three
  colour channels.\<close>

definition lerpC :: "Color \<Rightarrow> Color \<Rightarrow> real \<Rightarrow> Color" where
  "lerpC a c alpha =
     \<lparr>cr = cr a + (cr c - cr a) * alpha,
      cg = cg a + (cg c - cg a) * alpha,
      cb = cb a + (cb c - cb a) * alpha\<rparr>"

text \<open>Modelled from the spec: \<^verbatim>\<open>Matrix4.makeBasis\<close> followed by
  \<^verbatim>\<open>Quaternion.setFromRotationMatrix\<close>. Only the upper left 3x3 block of the matrix is
  read; its columns are the three axes.\<close>

record Matrix3 =
  m11 :: real  m12 :: real  m13 :: real
  m21 :: real  m22 :: real  m23 :: real
  m31 :: real  m32 :: real  m33 :: real

definition makeBasis :: "Vector3 \<Rightarrow> Vector3 \<Rightarrow> Vector3 \<Rightarrow> Matrix3" where
  "makeBasis xAxis yAxis zAxis =
     \<lparr>m11 = vx xAxis, m12 = vx yAxis, m13 = vx zAxis,
      m21 = vy xAxis, m22 = vy yAxis, m23 = vy zAxis,
      m31 = vz xAxis, m32 = vz yAxis, m33 = vz zAxis\<rparr>"

definition setFromRotationMatrix :: "Matrix3 \<Rightarrow> Quaternion" where
  "setFromRotationMatrix m =
     (let trace = m11 m + m22 m + m33 m in
      if 0 < trace then
        (let s = 0.5 / sqrt (trace + 1)
         in \<lparr>qx = (m32 m - m23 m) * s, qy = (m13 m - m31 m) * s,
             qz = (m21 m - m12 m) * s, qw = 0.25 / s\<rparr>)
      else if m22 m < m11 m \<and> m33 m < m11 m then
        (let s = 2 * sqrt (1 + m11 m - m22 m - m33 m)
         in \<lparr>qx = 0.25 * s, qy = (m12 m + m21 m) / s,
             qz = (m13 m + m31 m) / s, qw = (m32 m - m23 m) / s\<rparr>)
      else if m33 m < m22 m then
        (let s = 2 * sqrt (1 + m22 m - m11 m - m33 m)
         in \<lparr>qx = (m12 m + m21 m) / s, qy = 0.25 * s,
             qz = (m23 m + m32 m) / s, qw = (m13 m - m31 m) / s\<rparr>)
      else
        (let s = 2 * sqrt (1 + m33 m - m11 m - m22 m)
         in \<lparr>qx = (m13 m + m31 m) / s, qy = (m23 m + m32 m) / s,
             qz = 0.25 * s, qw = (m21 m - m12 m) / s\<rparr>))"

text \<open>Modelled from the spec: \<^verbatim>\<open>Quaternion.slerp(qb, t)\<close>, spherical linear
  interpolation as the library computes it. The target is negated when the two
  quaternions are more than a right angle apart; an (almost) zero angle falls back to a
  normalised linear blend. \<^verbatim>\<open>Number.EPSILON\<close> is \<open>2\<^sup>-\<^sup>5\<^sup>2\<close>.\<close>

definition dotQ :: "Quaternion \<Rightarrow> Quaternion \<Rightarrow> real" where
  "dotQ a b = qx a * qx b + qy a * qy b + qz a * qz b + qw a * qw b"

definition scaleQ :: "real \<Rightarrow> Quaternion \<Rightarrow> Quaternion" where
  "scaleQ s a = \<lparr>qx = s * qx a, qy = s * qy a, qz = s * qz a, qw = s * qw a\<rparr>"

definition blendQ :: "real \<Rightarrow> Quaternion \<Rightarrow> real \<Rightarrow> Quaternion \<Rightarrow> Quaternion" where
  "blendQ a p b r =
     \<lparr>qx = a * qx p + b * qx r, qy = a * qy p + b * qy r,
      qz = a * qz p + b * qz r, qw = a * qw p + b * qw r\<rparr>"

definition normalizeQ :: "Quaternion \<Rightarrow> Quaternion" where
  "normalizeQ a =
     (let l = sqrt (dotQ a a)
      in if l = 0 then \<lparr>qx = 0, qy = 0, qz = 0, qw = 1\<rparr> else scaleQ (1 / l) a)"

definition slerp :: "Quaternion \<Rightarrow> Quaternion \<Rightarrow> real \<Rightarrow> Quaternion" where
  "slerp q qb t =
     (if t = 0 then q
      else if t = 1 then qb
      else
        (let c0 = dotQ q qb;
             qb' = (if c0 < 0 then scaleQ (- 1) qb else qb);
             cosHalfTheta = (if c0 < 0 then - c0 else c0)
         in if 1 \<le> cosHalfTheta then q
            else
              (let sqrSinHalfTheta = 1 - cosHalfTheta * cosHalfTheta
               in if sqrSinHalfTheta \<le> 1 / 2 ^ 52
                  then normalizeQ (blendQ (1 - t) q t qb')
                  else
                    (let sinHalfTheta = sqrt sqrSinHalfTheta;
                         halfTheta = atan2 sinHalfTheta cosHalfTheta;
                         ratioA = sin ((1 - t) * halfTheta) / sinHalfTheta;
                         ratioB = sin (t * halfTheta) / sinHalfTheta
                     in blendQ ratioA q ratioB qb'))))"

section \<open>Shared types and constants\<close>

text \<open>\<^verbatim>\<open>src/constants.ts\<close> and \<^verbatim>\<open>src/types.ts\<close>. The two gesture enumerations are
  string unions in the source; their members carry a prefix here because \<open>none\<close> occurs
  in both and \<open>rotate\<close> is a list function of the logic.\<close>

definition PINCH_THRESHOLD :: real where
  "PINCH_THRESHOLD = 0.05"

definition SMOOTHING_FACTOR :: real where
  "SMOOTHING_FACTOR = 0.15"

record Landmark =
  lmx :: real
  lmy :: real
  lmz :: real

datatype Side = Left | Right

datatype GestureType =
  T_none | T_one_finger | T_two_fingers | T_three_fingers | T_four_fingers
  | T_open_palm | T_fist

datatype Gesture = G_none | G_rotate | G_pinch_drag | G_zoom | G_hover

record HandData =
  landmarks :: "Landmark list"
  worldLandmarks :: "Landmark list"
  handedness :: Side
  isPinching :: bool
  pinchStrength :: real
  palmPosition :: Vector3
  pinchPosition :: Vector3
  rotation :: Quaternion
  extendedFingers :: int
  gestureType :: GestureType

record TrackingState =
  leftHand :: "HandData option"
  rightHand :: "HandData option"
  gesture :: Gesture
  interactionStrength :: real

section \<open>The hand signal processor (\<^verbatim>\<open>src/components/HandTracker.tsx\<close>)\<close>

text \<open>\<^verbatim>\<open>landmarks[i]\<close> followed by a field access: out of range the element is
  \<^verbatim>\<open>undefined\<close> and the access throws.\<close>

definition landmarkAt :: "Landmark list \<Rightarrow> nat \<Rightarrow> Landmark option" where
  "landmarkAt lms i = (if i < length lms then Some (lms ! i) else None)"

definition toVector3 :: "Landmark \<Rightarrow> Vector3" where
  "toVector3 l = \<lparr>vx = lmx l, vy = lmy l, vz = lmz l\<rparr>"

definition lerpVector3 :: "Vector3 \<Rightarrow> Vector3 \<Rightarrow> real \<Rightarrow> Vector3" where
  "lerpVector3 v1 v2 alpha = lerpV v1 v2 alpha"

definition lerpQuaternion :: "Quaternion \<Rightarrow> Quaternion \<Rightarrow> real \<Rightarrow> Quaternion" where
  "lerpQuaternion q1 q2 alpha = slerp q1 q2 alpha"

definition calculateRotation :: "Landmark list \<Rightarrow> Quaternion option" where
  "calculateRotation lms = do {
     l0 \<leftarrow> landmarkAt lms 0;
     l5 \<leftarrow> landmarkAt lms 5;
     l17 \<leftarrow> landmarkAt lms 17;
     let wrist = toVector3 l0;
     let indexMCP = toVector3 l5;
     let pinkyMCP = toVector3 l17;
     let v1 = normalize (subVectors indexMCP wrist);
     let v2 = normalize (subVectors indexMCP pinkyMCP);
     let normal = normalize (crossVectors v1 v2);
     let xAxis = normalize (crossVectors v1 normal);
     Some (setFromRotationMatrix (makeBasis xAxis v1 normal))
   }"

text \<open>The loop over the four fingers of \<^verbatim>\<open>countExtendedFingers\<close>: the pairs are
  (tip index, PIP index), the accumulator is \<^verbatim>\<open>count\<close>.\<close>

fun fingerLoop :: "Landmark list \<Rightarrow> Landmark \<Rightarrow> (nat \<times> nat) list \<Rightarrow> int \<Rightarrow> int option" where
  "fingerLoop lms wrist [] count = Some count"
| "fingerLoop lms wrist ((t, p) # rest) count = do {
     tip \<leftarrow> landmarkAt lms t;
     pip \<leftarrow> landmarkAt lms p;
     let dTip = hypot (lmx tip - lmx wrist) (lmy tip - lmy wrist);
     let dPip = hypot (lmx pip - lmx wrist) (lmy pip - lmy wrist);
     fingerLoop lms wrist rest (if dPip < dTip then count + 1 else count)
   }"

definition fingerTips :: "nat list" where
  "fingerTips = [8, 12, 16, 20]"

definition fingerPIPs :: "nat list" where
  "fingerPIPs = [6, 10, 14, 18]"

definition countExtendedFingers :: "Landmark list \<Rightarrow> int option" where
  "countExtendedFingers lms = do {
     wrist \<leftarrow> landmarkAt lms 0;
     count \<leftarrow> fingerLoop lms wrist (zip fingerTips fingerPIPs) 0;
     thumbTip \<leftarrow> landmarkAt lms 4;
     indexMCP \<leftarrow> landmarkAt lms 5;
     let dThumb = hypot (lmx thumbTip - lmx indexMCP) (lmy thumbTip - lmy indexMCP);
     Some (if 0.05 < dThumb then count + 1 else count)
   }"

text \<open>The chain of \<^verbatim>\<open>if / else if\<close> of \<^verbatim>\<open>processHand\<close> that sets
  \<^verbatim>\<open>gestureType\<close>; the variable starts as \<^verbatim>\<open>'open_palm'\<close>.\<close>

definition classify :: "bool \<Rightarrow> int \<Rightarrow> GestureType" where
  "classify pinching extendedCount =
     (if pinching then T_fist
      else if extendedCount = 1 then T_one_finger
      else if extendedCount = 2 then T_two_fingers
      else if extendedCount = 3 then T_three_fingers
      else if extendedCount = 4 then T_four_fingers
      else if extendedCount = 5 then T_open_palm
      else T_open_palm)"

definition processHand :: "Landmark list \<Rightarrow> Side \<Rightarrow> HandData option \<Rightarrow> HandData option" where
  "processHand lms categoryName lastHand = do {
     l4 \<leftarrow> landmarkAt lms 4;
     l8 \<leftarrow> landmarkAt lms 8;
     l0 \<leftarrow> landmarkAt lms 0;
     let thumbTip = toVector3 l4;
     let indexTip = toVector3 l8;
     let wrist = toVector3 l0;
     let pinchDist = distanceTo thumbTip indexTip;
     let pinching = (pinchDist < PINCH_THRESHOLD);
     let pinchPos = multiplyScalar (addVectors thumbTip indexTip) 0.5;
     rawRotation \<leftarrow> calculateRotation lms;
     let smoothedPinchPos =
       (case lastHand of None \<Rightarrow> pinchPos
        | Some h \<Rightarrow> lerpVector3 (pinchPosition h) pinchPos SMOOTHING_FACTOR);
     let smoothedPalmPos =
       (case lastHand of None \<Rightarrow> wrist
        | Some h \<Rightarrow> lerpVector3 (palmPosition h) wrist SMOOTHING_FACTOR);
     let smoothedRotation =
       (case lastHand of None \<Rightarrow> rawRotation
        | Some h \<Rightarrow> lerpQuaternion (rotation h) rawRotation SMOOTHING_FACTOR);
     extendedCount \<leftarrow> countExtendedFingers lms;
     Some \<lparr>landmarks = lms,
           worldLandmarks = [],
           handedness = categoryName,
           isPinching = pinching,
           pinchStrength = max 0 (1 - pinchDist / PINCH_THRESHOLD),
           palmPosition = smoothedPalmPos,
           pinchPosition = smoothedPinchPos,
           rotation = smoothedRotation,
           extendedFingers = extendedCount,
           gestureType = classify pinching extendedCount\<rparr>
   }"

section \<open>The tracking state aggregator (\<^verbatim>\<open>predict\<close>)\<close>

text \<open>The loop of \<^verbatim>\<open>predict\<close> over the detected hands. A detection is the landmark
  list and the label of \<^verbatim>\<open>result.handedness[i][0]\<close>. The previous hand comes from the
  state of the last frame, which is replaced only after the loop.\<close>

fun handLoop :: "TrackingState \<Rightarrow> (Landmark list \<times> Side) list
    \<Rightarrow> HandData option \<Rightarrow> HandData option \<Rightarrow> (HandData option \<times> HandData option) option" where
  "handLoop prev [] newLeftHand newRightHand = Some (newLeftHand, newRightHand)"
| "handLoop prev ((lms, categoryName) # rest) newLeftHand newRightHand = do {
     let prevHand = (if categoryName = Left then leftHand prev else rightHand prev);
     processed \<leftarrow> processHand lms categoryName prevHand;
     (if categoryName = Left then handLoop prev rest (Some processed) newRightHand
      else handLoop prev rest newLeftHand (Some processed))
   }"

text \<open>Lines 248 to 273: the two-hand gesture and the state written to
  \<^verbatim>\<open>stateRef.current\<close>.\<close>

definition aggregate :: "HandData option \<Rightarrow> HandData option \<Rightarrow> TrackingState" where
  "aggregate newLeftHand newRightHand =
     (case (newLeftHand, newRightHand) of
        (Some l, Some r) \<Rightarrow>
          (let dist = distanceTo (palmPosition l) (palmPosition r)
           in if 0.2 < dist \<and> \<not> isPinching l \<and> \<not> isPinching r
              then \<lparr>leftHand = newLeftHand, rightHand = newRightHand,
                    gesture = G_zoom, interactionStrength = dist\<rparr>
              else \<lparr>leftHand = newLeftHand, rightHand = newRightHand,
                    gesture = G_none, interactionStrength = 0\<rparr>)
      | (Some l, None) \<Rightarrow>
          (if isPinching l
           then \<lparr>leftHand = newLeftHand, rightHand = newRightHand,
                 gesture = G_pinch_drag, interactionStrength = pinchStrength l\<rparr>
           else \<lparr>leftHand = newLeftHand, rightHand = newRightHand,
                 gesture = G_rotate, interactionStrength = 0\<rparr>)
      | (None, Some r) \<Rightarrow>
          (if isPinching r
           then \<lparr>leftHand = newLeftHand, rightHand = newRightHand,
                 gesture = G_pinch_drag, interactionStrength = pinchStrength r\<rparr>
           else \<lparr>leftHand = newLeftHand, rightHand = newRightHand,
                 gesture = G_rotate, interactionStrength = 0\<rparr>)
      | (None, None) \<Rightarrow>
          \<lparr>leftHand = newLeftHand, rightHand = newRightHand,
           gesture = G_none, interactionStrength = 0\<rparr>)"

definition predict :: "TrackingState \<Rightarrow> (Landmark list \<times> Side) list \<Rightarrow> TrackingState option" where
  "predict prev detections = do {
     (newLeftHand, newRightHand) \<leftarrow> handLoop prev detections None None;
     Some (aggregate newLeftHand newRightHand)
   }"

section \<open>The chemistry scene with pouring (\<^verbatim>\<open>src/unnamed/part_000\<close>)\<close>

text \<open>
  \<^verbatim>\<open>Equipment\<close>: the fields \<^verbatim>\<open>id\<close>, \<^verbatim>\<open>type\<close> and \<^verbatim>\<open>rotation\<close> are renamed
  (\<open>id\<close> is the identity function of the logic, \<open>rotation\<close> is a field of
  \<^typ>\<open>HandData\<close>). The two optional fields are options. Labels are only logged; the
  subscripts of the source's labels are written with plain digits.
\<close>

datatype EquipmentType = FLASK | TUBE | TEST_TUBE

datatype LiquidType = Water | Acid | Base | Indicator

record Equipment =
  eqId :: string
  eqType :: EquipmentType
  position :: Vector3
  eqRotation :: Euler
  color :: Color
  liquidLevel :: real
  heldBy :: "Side option"
  liquidType :: "LiquidType option"
  label :: "string option"

definition vector3 :: "real \<Rightarrow> real \<Rightarrow> real \<Rightarrow> Vector3" where
  "vector3 a b c = \<lparr>vx = a, vy = b, vz = c\<rparr>"

definition euler :: "real \<Rightarrow> real \<Rightarrow> real \<Rightarrow> Euler" where
  "euler a b c = \<lparr>ex = a, ey = b, ez = c\<rparr>"

text \<open>\<^verbatim>\<open>INITIAL_ITEMS\<close>. The library turns a colour string into its three channels; that
  conversion is the parameter \<open>hex\<close>.\<close>

definition INITIAL_ITEMS :: "(string \<Rightarrow> Color) \<Rightarrow> Equipment list" where
  "INITIAL_ITEMS hex =
     [\<lparr>eqId = ''tube1'', eqType = TEST_TUBE, position = vector3 (- 4) (- 1) 0,
       eqRotation = euler 0 0 0, color = hex ''#ff4444'', liquidLevel = 0.7, heldBy = None,
       liquidType = Some Acid, label = Some ''HCl''\<rparr>,
      \<lparr>eqId = ''tube2'', eqType = TEST_TUBE, position = vector3 (- 2.5) (- 1) 0,
       eqRotation = euler 0 0 0, color = hex ''#4444ff'', liquidLevel = 0.6, heldBy = None,
       liquidType = Some Base, label = Some ''NaOH''\<rparr>,
      \<lparr>eqId = ''tube3'', eqType = TEST_TUBE, position = vector3 (- 1) (- 1) 0,
       eqRotation = euler 0 0 0, color = hex ''#44ff44'', liquidLevel = 0.8, heldBy = None,
       liquidType = Some Water, label = Some ''H2O''\<rparr>,
      \<lparr>eqId = ''tube4'', eqType = TEST_TUBE, position = vector3 0.5 (- 1) 0,
       eqRotation = euler 0 0 0, color = hex ''#ffaa00'', liquidLevel = 0.5, heldBy = None,
       liquidType = Some Indicator, label = Some ''PH''\<rparr>,
      \<lparr>eqId = ''tube5'', eqType = TEST_TUBE, position = vector3 2 (- 1) 0,
       eqRotation = euler 0 0 0, color = hex ''#ff00ff'', liquidLevel = 0.4, heldBy = None,
       liquidType = Some Acid, label = Some ''H2SO4''\<rparr>,
      \<lparr>eqId = ''tube6'', eqType = TEST_TUBE, position = vector3 3.5 (- 1) 0,
       eqRotation = euler 0 0 0, color = hex ''#00ffff'', liquidLevel = 0.9, heldBy = None,
       liquidType = Some Water, label = Some ''Distilled''\<rparr>,
      \<lparr>eqId = ''beaker1'', eqType = FLASK, position = vector3 (- 2) 0 2,
       eqRotation = euler 0 0 0, color = hex ''#ffffff'', liquidLevel = 0.0, heldBy = None,
       liquidType = None, label = Some ''MIX 1''\<rparr>,
      \<lparr>eqId = ''beaker2'', eqType = FLASK, position = vector3 2 0 2,
       eqRotation = euler 0 0 0, color = hex ''#ffffff'', liquidLevel = 0.0, heldBy = None,
       liquidType = None, label = Some ''MIX 2''\<rparr>]"

subsection \<open>Grab and release\<close>

definition handPos :: "HandData \<Rightarrow> Vector3" where
  "handPos hand =
     \<lparr>vx = (0.5 - vx (pinchPosition hand)) * 14,
      vy = (0.5 - vy (pinchPosition hand)) * 10,
      vz = 0\<rparr>"

definition grabDistance :: "Equipment \<Rightarrow> real" where
  "grabDistance item = (if eqType item = TEST_TUBE then 0.8 else 1.5)"

text \<open>\<^verbatim>\<open>Math.atan2(index.y - wrist.y, index.x - wrist.x)\<close> on landmarks 0 and 8 of the
  hand; it throws when the hand carries fewer landmarks.\<close>

definition pointingAngle :: "HandData \<Rightarrow> real option" where
  "pointingAngle hand = do {
     wrist \<leftarrow> landmarkAt (landmarks hand) 0;
     index \<leftarrow> landmarkAt (landmarks hand) 8;
     Some (atan2 (lmy index - lmy wrist) (lmx index - lmx wrist))
   }"

definition rackPositions :: "real list" where
  "rackPositions = [- 4, - 2.5, - 1, 0.5, 2, 3.5]"

text \<open>\<^verbatim>\<open>rackPositions.reduce(...)\<close> without an initial value: the first element starts
  the accumulator.\<close>

definition nearestPos :: "real \<Rightarrow> real" where
  "nearestPos x =
     foldl (\<lambda>prev curr. if \<bar>curr - x\<bar> < \<bar>prev - x\<bar> then curr else prev)
       (hd rackPositions) (tl rackPositions)"

text \<open>The body of the GRAB branch, after its condition.\<close>

definition grab :: "Side \<Rightarrow> HandData \<Rightarrow> real \<Rightarrow> Equipment \<Rightarrow> Equipment option" where
  "grab side hand elapsedTime item = do {
     angle \<leftarrow> pointingAngle hand;
     let rot = eqRotation item;
     let rot' =
       (if eqType item = TEST_TUBE
        then rot\<lparr>ez := lerp (ez rot) (- (angle + pi / 2) * 0.7) 0.3,
                 ex := sin (elapsedTime * 2) * 0.05\<rparr>
        else rot\<lparr>ez := lerp (ez rot) (- (angle + pi / 2)) 0.2\<rparr>);
     Some (item\<lparr>heldBy := Some side, position := handPos hand, eqRotation := rot'\<rparr>)
   }"

text \<open>The body of the RELEASE branch: the snap back and the rotation reset.\<close>

definition snapBack :: "Equipment \<Rightarrow> Vector3" where
  "snapBack item =
     (let p = position item in
      if eqType item = TEST_TUBE then
        (if - 1.5 < vy p
         then p\<lparr>vy := - 1.5, vx := lerp (vx p) (nearestPos (vx p)) 0.5\<rparr>
         else p)
      else
        (if - 1.5 < vy p then p\<lparr>vy := - 1.5\<rparr> else p))"

definition release :: "Equipment \<Rightarrow> Equipment" where
  "release item = item\<lparr>heldBy := None, position := snapBack item, eqRotation := euler 0 0 0\<rparr>"

text \<open>The conditions of the GRAB branch and of the RELEASE branch.\<close>

definition canGrab :: "Side \<Rightarrow> HandData \<Rightarrow> Equipment \<Rightarrow> bool" where
  "canGrab side hand item =
     (distanceTo (handPos hand) (position item) < grabDistance item \<and> isPinching hand
      \<and> (heldBy item = None \<or> heldBy item = Some side))"

definition mustRelease :: "Side \<Rightarrow> HandData \<Rightarrow> Equipment \<Rightarrow> bool" where
  "mustRelease side hand item = (heldBy item = Some side \<and> \<not> isPinching hand)"

text \<open>One item under one hand: the new item and whether \<^verbatim>\<open>changed\<close> was set.\<close>

definition itemStep :: "Side \<Rightarrow> HandData \<Rightarrow> real \<Rightarrow> Equipment \<Rightarrow> (Equipment \<times> bool) option" where
  "itemStep side hand elapsedTime item =
     (if canGrab side hand item
      then do {
        item' \<leftarrow> grab side hand elapsedTime item;
        Some (item', heldBy item \<noteq> Some side)
      }
      else if mustRelease side hand item
      then Some (release item, True)
      else Some (item, False))"

text \<open>
  Both chemistry scenes run the same two nested loops,
  \<^verbatim>\<open>['Left', 'Right'].forEach((side) => { const hand = ...; if (!hand) return;
  objects.forEach(obj => { ... }) })\<close>, with their own loop body \<open>step\<close>. The state of
  the loops is the working copy of the objects and the flag \<^verbatim>\<open>changed\<close>.
\<close>

fun forEachObject :: "('a \<Rightarrow> ('a \<times> bool) option) \<Rightarrow> 'a list \<Rightarrow> ('a list \<times> bool) option" where
  "forEachObject step [] = Some ([], False)"
| "forEachObject step (obj # rest) = do {
     (obj', c) \<leftarrow> step obj;
     (rest', cs) \<leftarrow> forEachObject step rest;
     Some (obj' # rest', c \<or> cs)
   }"

text \<open>\<^verbatim>\<open>side === 'Left' ? hs.leftHand : hs.rightHand\<close>.\<close>

definition handOf :: "Side \<Rightarrow> TrackingState \<Rightarrow> HandData option" where
  "handOf side hs = (if side = Left then leftHand hs else rightHand hs)"

text \<open>One round of the outer loop: a side whose hand is null is skipped.\<close>

definition forSide :: "(Side \<Rightarrow> HandData \<Rightarrow> 'a \<Rightarrow> ('a \<times> bool) option) \<Rightarrow> Side \<Rightarrow> TrackingState
    \<Rightarrow> 'a list \<times> bool \<Rightarrow> ('a list \<times> bool) option" where
  "forSide step side hs st =
     (case handOf side hs of
        None \<Rightarrow> Some st
      | Some hand \<Rightarrow> do {
          (objs', c) \<leftarrow> forEachObject (step side hand) (fst st);
          Some (objs', snd st \<or> c)
        })"

definition forBothSides :: "(Side \<Rightarrow> HandData \<Rightarrow> 'a \<Rightarrow> ('a \<times> bool) option) \<Rightarrow> TrackingState
    \<Rightarrow> 'a list \<Rightarrow> ('a list \<times> bool) option" where
  "forBothSides step hs objs = do {
     st \<leftarrow> forSide step Left hs (objs, False);
     forSide step Right hs st
   }"

text \<open>The interaction part of the frame callback of this scene.\<close>

definition interact :: "TrackingState \<Rightarrow> real \<Rightarrow> Equipment list \<Rightarrow> (Equipment list \<times> bool) option" where
  "interact hs elapsedTime items =
     forBothSides (\<lambda>side hand. itemStep side hand elapsedTime) hs items"

subsection \<open>Pouring and mixing\<close>

text \<open>The body of the inner loop for source index \<open>i\<close> and target index \<open>j\<close>. Source and
  target are entries of the same array and are updated in place.\<close>

definition pourCondition :: "Equipment \<Rightarrow> Equipment \<Rightarrow> bool" where
  "pourCondition source target =
     (distanceTo (position source) (position target) < 2.5
      \<and> vy (position target) + 1 < vy (position source))"

definition transfer :: "nat \<Rightarrow> nat \<Rightarrow> Equipment list \<times> bool \<Rightarrow> Equipment list \<times> bool" where
  "transfer i j st =
     (let items = fst st; source = items ! i; target = items ! j in
      if i = j then st
      else if pourCondition source target then
        (let amount = 0.015;
             source' = source\<lparr>liquidLevel := liquidLevel source - amount\<rparr>;
             target' = target
               \<lparr>color := (if liquidLevel target \<le> 0.05 then color source
                          else lerpC (color target) (color source) 0.1),
                liquidLevel := min 1 (liquidLevel target + amount)\<rparr>
         in ((items[i := source'])[j := target'], True))
      else st)"

text \<open>The body of the outer loop for source index \<open>i\<close>.\<close>

definition pourFrom :: "nat \<Rightarrow> Equipment list \<times> bool \<Rightarrow> Equipment list \<times> bool" where
  "pourFrom i st =
     (let source = fst st ! i in
      if heldBy source = None \<or> liquidLevel source \<le> 0 then st
      else if 1.0 < \<bar>ez (eqRotation source)\<bar>
      then foldl (\<lambda>s j. transfer i j s) st [0..<length (fst st)]
      else st)"

definition pour :: "Equipment list \<times> bool \<Rightarrow> Equipment list \<times> bool" where
  "pour st = foldl (\<lambda>s i. pourFrom i s) st [0..<length (fst st)]"

subsection \<open>One rendered frame\<close>

text \<open>
  \<^verbatim>\<open>nextItems\<close> is a shallow copy of the state: the vectors, Euler angles and colours are
  shared with it and change in place, while \<^verbatim>\<open>heldBy\<close> and \<^verbatim>\<open>liquidLevel\<close> reach the
  state only through \<^verbatim>\<open>setItems\<close>, which runs when \<^verbatim>\<open>changed\<close> is set. The state
  the next frame reads is the one returned here (the component is rendered again between
  two frames). The particle queue is display only and is left out.
\<close>

definition shareObjects :: "Equipment list \<Rightarrow> Equipment list \<Rightarrow> Equipment list" where
  "shareObjects items nextItems =
     map (\<lambda>(old, new). old\<lparr>position := position new, eqRotation := eqRotation new,
                             color := color new\<rparr>)
       (zip items nextItems)"

definition frame :: "TrackingState \<Rightarrow> real \<Rightarrow> Equipment list \<Rightarrow> Equipment list option" where
  "frame hs elapsedTime items = do {
     st \<leftarrow> interact hs elapsedTime items;
     let (nextItems, changed) = pour st;
     Some (if changed then nextItems else shareObjects items nextItems)
   }"

text \<open>Frames in sequence: one tracking state and clock reading per frame.\<close>

fun frames :: "(TrackingState \<times> real) list \<Rightarrow> Equipment list \<Rightarrow> Equipment list option" where
  "frames [] items = Some items"
| "frames ((hs, elapsedTime) # rest) items = do {
     items' \<leftarrow> frame hs elapsedTime items;
     frames rest items'
   }"

section \<open>The chemistry page (\<^verbatim>\<open>src/pages/ChemistryPage.tsx\<close>)\<close>

text \<open>The page carries its own \<^verbatim>\<open>ChemistryLab\<close> over \<^verbatim>\<open>TestTube\<close> objects. Its fields
  carry the prefix \<open>tt\<close> where the name is taken already.\<close>

datatype ChemicalType = CT_acid | CT_base | CT_neutral | CT_indicator

record TestTube =
  ttId :: string
  ttPosition :: Vector3
  ttRotation :: Euler
  ttColor :: Color
  liquidColor :: string
  ttLiquidLevel :: real
  chemicalType :: ChemicalType
  ttHeldBy :: "Side option"
  ttLabel :: string

text \<open>The initial value of the state \<^verbatim>\<open>testTubes\<close>.\<close>

definition INITIAL_TUBES :: "(string \<Rightarrow> Color) \<Rightarrow> TestTube list" where
  "INITIAL_TUBES hex =
     [\<lparr>ttId = ''tube1'', ttPosition = vector3 (- 3) 0 0, ttRotation = euler 0 0 0,
       ttColor = hex ''#ff6b6b'', liquidColor = ''#ff6b6b'', ttLiquidLevel = 0.7,
       chemicalType = CT_acid, ttHeldBy = None, ttLabel = ''HCl''\<rparr>,
      \<lparr>ttId = ''tube2'', ttPosition = vector3 (- 1) 0 0, ttRotation = euler 0 0 0,
       ttColor = hex ''#4ecdc4'', liquidColor = ''#4ecdc4'', ttLiquidLevel = 0.6,
       chemicalType = CT_base, ttHeldBy = None, ttLabel = ''NaOH''\<rparr>,
      \<lparr>ttId = ''tube3'', ttPosition = vector3 1 0 0, ttRotation = euler 0 0 0,
       ttColor = hex ''#45b7d1'', liquidColor = ''#45b7d1'', ttLiquidLevel = 0.8,
       chemicalType = CT_neutral, ttHeldBy = None, ttLabel = ''H2O''\<rparr>,
      \<lparr>ttId = ''tube4'', ttPosition = vector3 3 0 0, ttRotation = euler 0 0 0,
       ttColor = hex ''#96ceb4'', liquidColor = ''#96ceb4'', ttLiquidLevel = 0.5,
       chemicalType = CT_indicator, ttHeldBy = None, ttLabel = ''PH''\<rparr>]"

definition handPosPage :: "HandData \<Rightarrow> Vector3" where
  "handPosPage hand =
     \<lparr>vx = (0.5 - vx (pinchPosition hand)) * 10,
      vy = (0.5 - vy (pinchPosition hand)) * 6,
      vz = vz (pinchPosition hand) * 2\<rparr>"

definition canGrabPage :: "Side \<Rightarrow> HandData \<Rightarrow> TestTube \<Rightarrow> bool" where
  "canGrabPage side hand tube =
     (distanceTo (handPosPage hand) (ttPosition tube) < 1.0 \<and> isPinching hand
      \<and> (ttHeldBy tube = None \<or> ttHeldBy tube = Some side))"

definition mustReleasePage :: "Side \<Rightarrow> HandData \<Rightarrow> TestTube \<Rightarrow> bool" where
  "mustReleasePage side hand tube = (ttHeldBy tube = Some side \<and> \<not> isPinching hand)"

definition grabPage :: "Side \<Rightarrow> HandData \<Rightarrow> TestTube \<Rightarrow> TestTube option" where
  "grabPage side hand tube = do {
     angle \<leftarrow> pointingAngle hand;
     Some (tube\<lparr>ttHeldBy := Some side, ttPosition := handPosPage hand,
                ttRotation := (ttRotation tube)\<lparr>ez := - (angle + pi / 2) * 0.5\<rparr>\<rparr>)
   }"

definition releasePage :: "TestTube \<Rightarrow> TestTube" where
  "releasePage tube =
     tube\<lparr>ttHeldBy := None, ttPosition := (ttPosition tube)\<lparr>vy := 0\<rparr>,
          ttRotation := euler 0 0 0\<rparr>"

definition tubeStep :: "Side \<Rightarrow> HandData \<Rightarrow> TestTube \<Rightarrow> (TestTube \<times> bool) option" where
  "tubeStep side hand tube =
     (if canGrabPage side hand tube
      then do {
        tube' \<leftarrow> grabPage side hand tube;
        Some (tube', ttHeldBy tube \<noteq> Some side)
      }
      else if mustReleasePage side hand tube
      then Some (releasePage tube, True)
      else Some (tube, False))"

definition interactPage :: "TrackingState \<Rightarrow> TestTube list \<Rightarrow> (TestTube list \<times> bool) option" where
  "interactPage hs tubes = forBothSides tubeStep hs tubes"

text \<open>The reaction check on the pair \<open>i < j\<close>: only the liquid levels of the two tubes
  change (the reaction glow is display state and is left out).\<close>

definition react :: "nat \<Rightarrow> nat \<Rightarrow> TestTube list \<times> bool \<Rightarrow> TestTube list \<times> bool" where
  "react i j st =
     (let tubes = fst st; tube1 = tubes ! i; tube2 = tubes ! j in
      if distanceTo (ttPosition tube1) (ttPosition tube2) < 1.5
         \<and> 0.1 < ttLiquidLevel tube1 \<and> 0.1 < ttLiquidLevel tube2
      then ((tubes[i := tube1\<lparr>ttLiquidLevel := max 0 (ttLiquidLevel tube1 - 0.01)\<rparr>])
                 [j := tube2\<lparr>ttLiquidLevel := max 0 (ttLiquidLevel tube2 - 0.01)\<rparr>], True)
      else st)"

definition reactions :: "TestTube list \<times> bool \<Rightarrow> TestTube list \<times> bool" where
  "reactions st =
     foldl (\<lambda>s i. foldl (\<lambda>s' j. react i j s') s [i + 1..<length (fst st)])
       st [0..<length (fst st)]"

definition shareObjectsPage :: "TestTube list \<Rightarrow> TestTube list \<Rightarrow> TestTube list" where
  "shareObjectsPage tubes nextTubes =
     map (\<lambda>(old, new). old\<lparr>ttPosition := ttPosition new, ttRotation := ttRotation new,
                             ttColor := ttColor new\<rparr>)
       (zip tubes nextTubes)"

definition framePage :: "TrackingState \<Rightarrow> TestTube list \<Rightarrow> TestTube list option" where
  "framePage hs tubes = do {
     st \<leftarrow> interactPage hs tubes;
     let (nextTubes, changed) = reactions st;
     Some (if changed then nextTubes else shareObjectsPage tubes nextTubes)
   }"

section \<open>The solar system scene (\<^verbatim>\<open>src/unnamed/part_001\<close>)\<close>

text \<open>The table \<^verbatim>\<open>PLANETS\<close>. Entry 0 is the full view with the sun at the centre; the
  field \<^verbatim>\<open>size\<close> is called \<open>plSize\<close> here, \<open>size\<close> being a function of the logic, and
  \<^verbatim>\<open>name\<close> and \<^verbatim>\<open>color\<close> carry the same prefix.\<close>

record Planet =
  plName :: string
  plColor :: string
  distance :: real
  plSize :: real
  speed :: real

definition PLANETS :: "Planet list" where
  "PLANETS =
     [\<lparr>plName = ''Solar System'', plColor = ''#ffaa00'', distance = 0, plSize = 4.0, speed = 0\<rparr>,
      \<lparr>plName = ''Mercury'', plColor = ''#A0A0A0'', distance = 10, plSize = 0.8, speed = 1.2\<rparr>,
      \<lparr>plName = ''Venus'', plColor = ''#E3BB76'', distance = 15, plSize = 1.2, speed = 0.9\<rparr>,
      \<lparr>plName = ''Earth'', plColor = ''#2B32B2'', distance = 22, plSize = 1.3, speed = 0.6\<rparr>,
      \<lparr>plName = ''Mars'', plColor = ''#CF3C16'', distance = 30, plSize = 1.0, speed = 0.5\<rparr>,
      \<lparr>plName = ''Jupiter'', plColor = ''#C88B3A'', distance = 45, plSize = 3.5, speed = 0.2\<rparr>]"

text \<open>The component's state: the React state \<^verbatim>\<open>targetIndex\<close>, the refs
  \<^verbatim>\<open>planetAngles\<close>, \<^verbatim>\<open>planetPositions\<close> and \<^verbatim>\<open>camState\<close>, and of the camera its position
  and the point \<^verbatim>\<open>camera.lookAt\<close> was last given.\<close>

record CamState =
  radius :: real
  phi :: real
  theta :: real
  targetLookAt :: Vector3

record SolarState =
  targetIndex :: nat
  planetAngles :: "real list"
  planetPositions :: "Vector3 list"
  camState :: CamState
  cameraPosition :: Vector3
  cameraLookAt :: Vector3


text \<open>\<^verbatim>\<open>a || b\<close> on two hand slots.\<close>

definition orElse :: "'a option \<Rightarrow> 'a option \<Rightarrow> 'a option" where
  "orElse a b = (case a of Some x \<Rightarrow> Some x | None \<Rightarrow> b)"

text \<open>Step 1, navigation. \<open>gestureIndex\<close> is the chain that sets \<^verbatim>\<open>newIndex\<close>, with
  \<open>None\<close> for its initial value -1. \<open>navigate\<close> returns the value of \<^verbatim>\<open>targetIndex\<close> for
  the next render: the argument of \<^verbatim>\<open>setTargetIndex\<close> when it is called, the old value
  otherwise.\<close>

definition gestureIndex :: "GestureType \<Rightarrow> nat option" where
  "gestureIndex g =
     (if g = T_fist then Some 0
      else if g = T_one_finger then Some 1
      else if g = T_two_fingers then Some 2
      else if g = T_three_fingers then Some 3
      else if g = T_four_fingers then Some 4
      else if g = T_open_palm then Some 5
      else None)"

definition navigate :: "TrackingState \<Rightarrow> nat \<Rightarrow> nat" where
  "navigate hs target =
     (case orElse (rightHand hs) (leftHand hs) of
        None \<Rightarrow> target
      | Some hand \<Rightarrow>
          if \<not> isPinching hand then
            (case gestureIndex (gestureType hand) of
               None \<Rightarrow> target
             | Some newIndex \<Rightarrow>
                 if newIndex < length PLANETS \<and> newIndex \<noteq> target then newIndex else target)
          else target)"

text \<open>Step 2, the orbits: the body of \<^verbatim>\<open>PLANETS.forEach\<close> over the pairs of index and
  planet. Both arrays are created with one entry per planet and never resized. Calling
  \<^verbatim>\<open>set\<close> on a missing position throws; adding to a missing angle gives \<^verbatim>\<open>NaN\<close>, which
  the reals do not have, so that case is a failure here as well.\<close>

fun orbit :: "real \<Rightarrow> (nat \<times> Planet) list \<Rightarrow> real list \<times> Vector3 list
    \<Rightarrow> (real list \<times> Vector3 list) option" where
  "orbit delta [] st = Some st"
| "orbit delta ((i, planet) # rest) (angles, positions) =
     (if 0 < i then
        (if i < length angles \<and> i < length positions then
           (let a = angles ! i + speed planet * delta * 0.5;
                x = cos a * distance planet;
                z = sin a * distance planet
            in orbit delta rest (angles[i := a], positions[i := \<lparr>vx = x, vy = 0, vz = z\<rparr>]))
         else None)
      else
        (if i < length positions
         then orbit delta rest (angles, positions[i := \<lparr>vx = 0, vy = 0, vz = 0\<rparr>])
         else None))"

text \<open>Step 3, pinch to orbit.\<close>

definition pinchOrbit :: "TrackingState \<Rightarrow> real \<Rightarrow> CamState \<Rightarrow> CamState" where
  "pinchOrbit hs delta cam =
     (if gesture hs = G_pinch_drag \<and> (leftHand hs \<noteq> None \<or> rightHand hs \<noteq> None) then
        (case orElse (leftHand hs) (rightHand hs) of
           None \<Rightarrow> cam
         | Some activeHand \<Rightarrow>
             (let dx = vx (pinchPosition activeHand) - 0.5;
                  dy = vy (pinchPosition activeHand) - 0.5;
                  sensitivity = 2.0;
                  theta' = theta cam - dx * delta * sensitivity;
                  phi' = phi cam + dy * delta * sensitivity
              in cam\<lparr>theta := theta', phi := max 0.1 (min (pi - 0.1) phi')\<rparr>))
      else cam)"

text \<open>Step 4, the camera transition. Reading \<^verbatim>\<open>planetPositions.current[targetIndex]\<close> or
  \<^verbatim>\<open>PLANETS[targetIndex]\<close> out of range gives \<^verbatim>\<open>undefined\<close>, and the use of it throws.\<close>

definition idealRadius :: "nat \<Rightarrow> real" where
  "idealRadius target = (if 0 < target then plSize (PLANETS ! target) * 5 + 5 else 60)"

definition cameraTransition :: "nat \<Rightarrow> Vector3 list \<Rightarrow> CamState \<Rightarrow> Vector3
    \<Rightarrow> (CamState \<times> Vector3 \<times> Vector3) option" where
  "cameraTransition target positions cam camPos =
     (if target < length positions \<and> target < length PLANETS then
        (let targetPlanetPos = positions ! target;
             lookAt = lerpV (targetLookAt cam) targetPlanetPos 0.05;
             r = lerp (radius cam) (idealRadius target) 0.05;
             offsetX = r * sin (phi cam) * sin (theta cam);
             offsetY = r * cos (phi cam);
             offsetZ = r * sin (phi cam) * cos (theta cam);
             idealCamPos = addVectors lookAt \<lparr>vx = offsetX, vy = offsetY, vz = offsetZ\<rparr>
         in Some (cam\<lparr>targetLookAt := lookAt, radius := r\<rparr>, lerpV camPos idealCamPos 0.1, lookAt))
      else None)"

text \<open>The callback of \<^verbatim>\<open>useFrame\<close>. The camera transition reads the \<^verbatim>\<open>targetIndex\<close> of
  the render the callback belongs to; a new target set in step 1 is the state of the
  next render, hence of the next frame.\<close>

definition solarFrame :: "TrackingState \<Rightarrow> real \<Rightarrow> SolarState \<Rightarrow> SolarState option" where
  "solarFrame hs delta s = do {
     (angles, positions) \<leftarrow>
       orbit delta (zip [0 ..< length PLANETS] PLANETS) (planetAngles s, planetPositions s);
     let cam = pinchOrbit hs delta (camState s);
     (cam', camPos, lookAt) \<leftarrow> cameraTransition (targetIndex s) positions cam (cameraPosition s);
     Some \<lparr>targetIndex = navigate hs (targetIndex s),
           planetAngles = angles,
           planetPositions = positions,
           camState = cam',
           cameraPosition = camPos,
           cameraLookAt = lookAt\<rparr>
   }"

text \<open>The state after the first \<open>n\<close> frames of a stream of inputs (tracking state and time
  step of each frame).\<close>

primrec solarRun :: "(nat \<Rightarrow> TrackingState \<times> real) \<Rightarrow> nat \<Rightarrow> SolarState \<Rightarrow> SolarState option" where
  "solarRun ins 0 s = Some s"
| "solarRun ins (Suc n) s = do {
     s' \<leftarrow> solarRun ins n s;
     solarFrame (fst (ins n)) (snd (ins n)) s'
   }"

section \<open>Sample inputs\<close>

text \<open>The value \<^verbatim>\<open>stateRef\<close> starts with, and a hand whose four fingers are stretched
  out while the thumb tip rests beside the index knuckle; \<open>dx\<close> shifts it sideways.\<close>

definition initialState :: TrackingState where
  "initialState =
     \<lparr>leftHand = None, rightHand = None, gesture = G_none, interactionStrength = 0\<rparr>"

definition lm2 :: "real \<Rightarrow> real \<Rightarrow> Landmark" where
  "lm2 a b = \<lparr>lmx = a, lmy = b, lmz = 0\<rparr>"

definition fourFingerHand :: "real \<Rightarrow> Landmark list" where
  "fourFingerHand dx =
     [lm2 (dx + 0.5) 0.9,
      lm2 (dx + 0.45) 0.8, lm2 (dx + 0.42) 0.7, lm2 (dx + 0.42) 0.65, lm2 (dx + 0.44) 0.6,
      lm2 (dx + 0.45) 0.6, lm2 (dx + 0.45) 0.5, lm2 (dx + 0.45) 0.4, lm2 (dx + 0.45) 0.3,
      lm2 (dx + 0.5) 0.6, lm2 (dx + 0.5) 0.5, lm2 (dx + 0.5) 0.4, lm2 (dx + 0.5) 0.3,
      lm2 (dx + 0.55) 0.6, lm2 (dx + 0.55) 0.5, lm2 (dx + 0.55) 0.4, lm2 (dx + 0.55) 0.3,
      lm2 (dx + 0.6) 0.6, lm2 (dx + 0.6) 0.5, lm2 (dx + 0.6) 0.4, lm2 (dx + 0.6) 0.3]"

text \<open>A hand as the tracker would report it, at pinch position \<open>(px, py)\<close>, pinching or
  open; its landmarks are those of the hand above, so the index finger points up the
  image.\<close>

definition sampleHand :: "Side \<Rightarrow> bool \<Rightarrow> real \<Rightarrow> real \<Rightarrow> HandData" where
  "sampleHand side pinching px py =
     \<lparr>landmarks = fourFingerHand 0, worldLandmarks = [], handedness = side,
      isPinching = pinching, pinchStrength = (if pinching then 1 else 0),
      palmPosition = \<lparr>vx = px, vy = py, vz = 0\<rparr>,
      pinchPosition = \<lparr>vx = px, vy = py, vz = 0\<rparr>,
      rotation = \<lparr>qx = 0, qy = 0, qz = 0, qw = 1\<rparr>,
      extendedFingers = (if pinching then 0 else 4),
      gestureType = (if pinching then T_fist else T_four_fingers)\<rparr>"

text \<open>A plain reading of a colour string \<^verbatim>\<open>#rrggbb\<close>: each channel is its byte divided
  by 255. It stands in for the library's parser in the sample runs.\<close>

definition hexDigit :: "char \<Rightarrow> nat" where
  "hexDigit c =
     (let n = of_char c :: nat in
      if 48 \<le> n \<and> n \<le> 57 then n - 48
      else if 97 \<le> n \<and> n \<le> 102 then n - 87
      else 0)"

definition plainHex :: "string \<Rightarrow> Color" where
  "plainHex s =
     (case s of
        [h, r1, r2, g1, g2, b1, b2] \<Rightarrow>
          \<lparr>cr = real (16 * hexDigit r1 + hexDigit r2) / 255,
           cg = real (16 * hexDigit g1 + hexDigit g2) / 255,
           cb = real (16 * hexDigit b1 + hexDigit b2) / 255\<rparr>
      | _ \<Rightarrow> \<lparr>cr = 0, cg = 0, cb = 0\<rparr>)"

text \<open>Tracking states with one hand, and the two scenes with their first tube already in
  the left hand.\<close>

definition leftOnly :: "HandData \<Rightarrow> TrackingState" where
  "leftOnly hand = aggregate (Some hand) None"

definition rightOnly :: "HandData \<Rightarrow> TrackingState" where
  "rightOnly hand = aggregate None (Some hand)"

definition heldScene :: "Equipment list" where
  "heldScene = (INITIAL_ITEMS plainHex)[0 := (INITIAL_ITEMS plainHex ! 0)\<lparr>heldBy := Some Left\<rparr>]"

definition heldTubes :: "TestTube list" where
  "heldTubes = (INITIAL_TUBES plainHex)[0 := (INITIAL_TUBES plainHex ! 0)\<lparr>ttHeldBy := Some Left\<rparr>]"

text \<open>The first test tube in the left hand, tilted by two radians: over the first beaker
  with no other vessel in reach (\<open>pouringScene\<close>), and over the second and third test
  tube (\<open>tiltedScene\<close>, for any reading \<open>hex\<close> of the colour strings).\<close>

definition pouringScene :: "Equipment list" where
  "pouringScene =
     (INITIAL_ITEMS plainHex)
       [0 := (INITIAL_ITEMS plainHex ! 0)
          \<lparr>heldBy := Some Left, position := vector3 (- 1.75) 1.4 0,
           eqRotation := euler 0 0 (- 2)\<rparr>]"

definition tiltedScene :: "(string \<Rightarrow> Color) \<Rightarrow> Equipment list" where
  "tiltedScene hex =
     (INITIAL_ITEMS hex)
       [0 := (INITIAL_ITEMS hex ! 0)
          \<lparr>heldBy := Some Left, position := vector3 (- 2.5) 0.5 0,
           eqRotation := euler 0 0 (- 2)\<rparr>]"




section \<open>Notions used in the proofs\<close>

text \<open>The effect of one side's turn on a single object.\<close>

definition sideStep :: "(Side \<Rightarrow> HandData \<Rightarrow> 'a \<Rightarrow> ('a \<times> bool) option) \<Rightarrow> Side \<Rightarrow> TrackingState
    \<Rightarrow> 'a \<Rightarrow> ('a \<times> bool) option" where
  "sideStep step side hs obj =
     (case handOf side hs of None \<Rightarrow> Some (obj, False) | Some hand \<Rightarrow> step side hand obj)"

definition itemTurn :: "Side \<Rightarrow> TrackingState \<Rightarrow> real \<Rightarrow> Equipment \<Rightarrow> (Equipment \<times> bool) option" where
  "itemTurn side hs t = sideStep (\<lambda>s hand. itemStep s hand t) side hs"

definition pose :: "Equipment \<Rightarrow> Side option \<times> Vector3 \<times> Euler \<times> EquipmentType" where
  "pose item = (heldBy item, position item, eqRotation item, eqType item)"

definition pourStep :: "Equipment list \<times> bool \<Rightarrow> Equipment list \<times> bool \<Rightarrow> bool" where
  "pourStep st st' \<longleftrightarrow>
     map pose (fst st') = map pose (fst st) \<and> (snd st \<longrightarrow> snd st') \<and> (\<not> snd st' \<longrightarrow> st' = st)"

definition tubeTurn :: "Side \<Rightarrow> TrackingState \<Rightarrow> TestTube \<Rightarrow> (TestTube \<times> bool) option" where
  "tubeTurn side hs = sideStep tubeStep side hs"

text \<open>The reaction loop changes liquid levels only.\<close>

definition posePage :: "TestTube \<Rightarrow> Side option \<times> Vector3 \<times> Euler" where
  "posePage tube = (ttHeldBy tube, ttPosition tube, ttRotation tube)"

definition reactStep :: "TestTube list \<times> bool \<Rightarrow> TestTube list \<times> bool \<Rightarrow> bool" where
  "reactStep st st' \<longleftrightarrow>
     map posePage (fst st') = map posePage (fst st) \<and> (snd st \<longrightarrow> snd st')
     \<and> (\<not> snd st' \<longrightarrow> st' = st)"

definition readable :: "TrackingState \<Rightarrow> bool" where
  "readable hs \<longleftrightarrow> (\<forall>side hand. handOf side hs = Some hand \<longrightarrow> pointingAngle hand \<noteq> None)"

text \<open>The turn of one source in the pouring loop, in closed form: \<open>receives\<close> says which
  objects the source \<open>i\<close> pours into, \<open>poured\<close> is such an object after its transfer, and
  \<open>afterPour\<close> is the array once the targets below \<open>m\<close> have been visited.\<close>

definition receives :: "Equipment list \<Rightarrow> nat \<Rightarrow> nat \<Rightarrow> bool" where
  "receives items i j \<longleftrightarrow> j \<noteq> i \<and> pourCondition (items ! i) (items ! j)"

definition poured :: "Equipment list \<Rightarrow> nat \<Rightarrow> nat \<Rightarrow> Equipment" where
  "poured items i j =
     (items ! j)\<lparr>color := (if liquidLevel (items ! j) \<le> 0.05 then color (items ! i)
                            else lerpC (color (items ! j)) (color (items ! i)) 0.1),
                 liquidLevel := min 1 (liquidLevel (items ! j) + 0.015)\<rparr>"

definition afterPour :: "Equipment list \<Rightarrow> nat \<Rightarrow> nat \<Rightarrow> Equipment list" where
  "afterPour items i m =
     map (\<lambda>j. if j = i
              then (items ! i)\<lparr>liquidLevel := liquidLevel (items ! i)
                     - 0.015 * real (length (filter (receives items i) [0..<m]))\<rparr>
              else if j < m \<and> receives items i j then poured items i j
              else items ! j)
       [0..<length items]"

definition pouring :: "Equipment \<Rightarrow> bool" where
  "pouring source \<longleftrightarrow>
     heldBy source \<noteq> None \<and> 0 < liquidLevel source \<and> 1 < \<bar>ez (eqRotation source)\<bar>"

text \<open>An object that is not held, or held without the tilt, pours nothing whatever its
  liquid level.\<close>

definition resting :: "Equipment \<Rightarrow> bool" where
  "resting item \<longleftrightarrow> heldBy item = None \<or> \<bar>ez (eqRotation item)\<bar> \<le> 1"

text \<open>The pouring scenario: the first test tube (index 0) is held and tilted over the first
  beaker (index 6), no other object is in its pouring range, and no other object is held
  with a tilt. \<open>keptPouring\<close> says that this is the situation after the interaction step of
  every frame of a run.\<close>

definition pouringPose :: "Equipment list \<Rightarrow> bool" where
  "pouringPose its \<longleftrightarrow>
     length its = 8 \<and> heldBy (its ! 0) \<noteq> None \<and> 1 < \<bar>ez (eqRotation (its ! 0))\<bar>
     \<and> pourCondition (its ! 0) (its ! 6)
     \<and> (\<forall>j \<in> set [1, 2, 3, 4, 5, 7]. \<not> pourCondition (its ! 0) (its ! j))
     \<and> (\<forall>k \<in> set [1, 2, 3, 4, 5, 6, 7]. resting (its ! k))"

fun keptPouring :: "(TrackingState \<times> real) list \<Rightarrow> Equipment list \<Rightarrow> bool" where
  "keptPouring [] its = True"
| "keptPouring ((hs, t) # rest) its =
     (case interact hs t its of
        None \<Rightarrow> False
      | Some st \<Rightarrow> pouringPose (fst st) \<and> keptPouring rest (fst (pour st)))"

text \<open>The levels of tube and beaker after \<open>n\<close> frames of the scenario.\<close>

definition levelsAfter :: "nat \<Rightarrow> Equipment list \<Rightarrow> bool" where
  "levelsAfter n s \<longleftrightarrow>
     length s = 8
     \<and> liquidLevel (s ! 0) = 0.7 - 0.015 * real (min n 47)
     \<and> liquidLevel (s ! 6) = 0.015 * real (min n 47)
     \<and> (1 \<le> n \<longrightarrow> color (s ! 6) = color (s ! 0))"

text \<open>The representative of the orientation \<open>r\<close> on the side of \<open>p\<close>: a quaternion and its
  negative are the same rotation, and the interpolation heads for the nearer of the two.\<close>

definition towards :: "Quaternion \<Rightarrow> Quaternion \<Rightarrow> Quaternion" where
  "towards p r = (if dotQ p r < 0 then scaleQ (- 1) r else r)"

text \<open>The arrays have one entry per planet and the target is one of them.\<close>

definition wellFormed :: "SolarState \<Rightarrow> bool" where
  "wellFormed s \<longleftrightarrow>
     length (planetAngles s) = length PLANETS \<and> length (planetPositions s) = length PLANETS
     \<and> targetIndex s < length PLANETS"

text \<open>The place of planet \<open>i\<close> on its orbit at angle \<open>a\<close>.\<close>

definition orbitPosition :: "nat \<Rightarrow> real \<Rightarrow> Vector3" where
  "orbitPosition i a =
     \<lparr>vx = cos a * distance (PLANETS ! i), vy = 0, vz = sin a * distance (PLANETS ! i)\<rparr>"




section \<open>Properties of the hand signal processor and the aggregator\<close>


lemma sqrt_gt_iff: "0 \<le> c \<Longrightarrow> (c < sqrt x) = (c * c < x)"
  by (metis real_sqrt_lt_0_iff real_sqrt_less_iff real_sqrt_mult_self abs_of_nonneg not_less order_less_le_trans mult_nonneg_nonneg real_sqrt_abs2)

lemma sqrt_lt_iff: "0 \<le> c \<Longrightarrow> (sqrt x < c) = (x < c * c)"
  by (metis sqrt_gt_iff real_sqrt_less_iff real_sqrt_abs2 abs_of_nonneg)

lemma landmarkAt_Some: "landmarkAt lms i = Some l \<longleftrightarrow> i < length lms \<and> l = lms ! i"
  by (auto simp: landmarkAt_def)

lemma landmarkAt_in: "21 \<le> length lms \<Longrightarrow> i < 21 \<Longrightarrow> landmarkAt lms i = Some (lms ! i)"
  by (simp add: landmarkAt_def)

lemma calculateRotation_total: "21 \<le> length lms \<Longrightarrow> \<exists>q. calculateRotation lms = Some q"
  by (simp add: calculateRotation_def landmarkAt_in Let_def)

lemma fingerLoop_bounds:
  "fingerLoop lms w ps c = Some n \<Longrightarrow> c \<le> n \<and> n \<le> c + int (length ps)"
proof (induction ps arbitrary: c)
  case Nil
  then show ?case by simp
next
  case (Cons a ps)
  obtain t p where a: "a = (t, p)" by (cases a)
  from Cons.prems obtain tip pip c' where
    "fingerLoop lms w ps c' = Some n" "c' = c \<or> c' = c + 1"
    by (auto simp: a Let_def split: bind_splits if_splits)
  with Cons.IH [of c'] show ?case by auto
qed

lemma fingerLoop_total:
  "\<forall>(t, p) \<in> set ps. t < length lms \<and> p < length lms \<Longrightarrow> \<exists>n. fingerLoop lms w ps c = Some n"
  by (induction ps arbitrary: c) (auto simp: landmarkAt_def Let_def)

lemma countExtendedFingers_bounds:
  "countExtendedFingers lms = Some n \<Longrightarrow> 0 \<le> n \<and> n \<le> 5"
  unfolding countExtendedFingers_def
  by (auto simp: Let_def fingerTips_def fingerPIPs_def split: bind_splits if_splits
      dest!: fingerLoop_bounds)

lemma countExtendedFingers_total:
  assumes "21 \<le> length lms"
  shows "\<exists>n. countExtendedFingers lms = Some n"
proof -
  have "\<forall>(t, p) \<in> set (zip fingerTips fingerPIPs). t < length lms \<and> p < length lms"
    using assms by (simp add: fingerTips_def fingerPIPs_def)
  from fingerLoop_total [OF this] obtain n
    where "fingerLoop lms (lms ! 0) (zip fingerTips fingerPIPs) 0 = Some n" by blast
  then show ?thesis
    using assms by (simp add: countExtendedFingers_def landmarkAt_in Let_def)
qed

lemma processHand_total:
  assumes "21 \<le> length lms"
  shows "\<exists>h. processHand lms c lastHand = Some h"
proof -
  obtain q where "calculateRotation lms = Some q"
    using calculateRotation_total [OF assms] by blast
  moreover obtain n where "countExtendedFingers lms = Some n"
    using countExtendedFingers_total [OF assms] by blast
  ultimately show ?thesis
    using assms by (simp add: processHand_def landmarkAt_in Let_def)
qed

lemma processHand_None: "length lms < 21 \<Longrightarrow> processHand lms c lastHand = None"
  unfolding processHand_def countExtendedFingers_def
  by (auto simp: Let_def landmarkAt_def fingerTips_def fingerPIPs_def split: bind_splits)

lemma processHand_fields:
  assumes "processHand lms c lastHand = Some h"
  shows "isPinching h = (distanceTo (toVector3 (lms ! 4)) (toVector3 (lms ! 8)) < PINCH_THRESHOLD)"
    and "pinchStrength h = max 0 (1 - distanceTo (toVector3 (lms ! 4)) (toVector3 (lms ! 8)) / PINCH_THRESHOLD)"
    and "countExtendedFingers lms = Some (extendedFingers h)"
    and "gestureType h = classify (isPinching h) (extendedFingers h)"
    and "handedness h = c"
    and "landmarks h = lms"
  using assms unfolding processHand_def
  by (auto simp: Let_def landmarkAt_Some split: bind_splits)


lemma processHand_smoothed:
  assumes "processHand lms c lastHand = Some h"
  shows "palmPosition h = (case lastHand of None \<Rightarrow> toVector3 (lms ! 0)
           | Some p \<Rightarrow> lerpVector3 (palmPosition p) (toVector3 (lms ! 0)) SMOOTHING_FACTOR)"
  using assms unfolding processHand_def
  by (auto simp: Let_def landmarkAt_Some split: bind_splits)

theorem pinch_state_and_strength:
  assumes "processHand lms c lastHand = Some h"
    and "d = sqrt ((lmx (lms ! 4) - lmx (lms ! 8)) * (lmx (lms ! 4) - lmx (lms ! 8))
                 + (lmy (lms ! 4) - lmy (lms ! 8)) * (lmy (lms ! 4) - lmy (lms ! 8))
                 + (lmz (lms ! 4) - lmz (lms ! 8)) * (lmz (lms ! 4) - lmz (lms ! 8)))"
  shows "4 < length lms \<and> 8 < length lms
       \<and> isPinching h = (d < PINCH_THRESHOLD)
       \<and> PINCH_THRESHOLD = 0.05
       \<and> pinchStrength h = max 0 (1 - d / PINCH_THRESHOLD)
       \<and> 0 \<le> pinchStrength h \<and> pinchStrength h \<le> 1"
proof -
  have len: "21 \<le> length lms"
    using assms(1) processHand_None [of lms c lastHand] by (cases "length lms < 21") auto
  have d: "d = distanceTo (toVector3 (lms ! 4)) (toVector3 (lms ! 8))"
    by (simp add: assms(2) distanceTo_def toVector3_def)
  have "0 \<le> d" by (simp add: assms(2))
  then have "0 \<le> d / PINCH_THRESHOLD" by (simp add: PINCH_THRESHOLD_def)
  then have "max 0 (1 - d / PINCH_THRESHOLD) \<le> 1" by simp
  then show ?thesis
    using len processHand_fields(1,2) [OF assms(1)] by (simp add: d PINCH_THRESHOLD_def)
qed

lemma nth_fourFingerHand:
  "fourFingerHand dx ! 0 = lm2 (dx + 0.5) 0.9"
  "fourFingerHand dx ! 4 = lm2 (dx + 0.44) 0.6"
  "fourFingerHand dx ! 8 = lm2 (dx + 0.45) 0.3"
  "length (fourFingerHand dx) = 21"
  by (simp_all add: fourFingerHand_def)

theorem pinch_state_and_strength_witness:
  "\<exists>h. processHand (fourFingerHand 0) Left None = Some h
     \<and> \<not> isPinching h \<and> pinchStrength h = 0"
proof -
  obtain h where h: "processHand (fourFingerHand 0) Left None = Some h"
    using processHand_total [of "fourFingerHand 0" Left None] by (auto simp: nth_fourFingerHand)
  define d where "d = sqrt ((0.44 - 0.45) * (0.44 - 0.45) + (0.6 - 0.3) * (0.6 - 0.3) + 0 * (0::real))"
  have far: "PINCH_THRESHOLD \<le> d"
    unfolding d_def PINCH_THRESHOLD_def by (rule real_le_rsqrt) (simp add: power2_eq_square)
  have "isPinching h = (d < PINCH_THRESHOLD) \<and> pinchStrength h = max 0 (1 - d / PINCH_THRESHOLD)"
    using pinch_state_and_strength [OF h, of d]
    by (simp add: nth_fourFingerHand lm2_def d_def)
  moreover have "1 \<le> d / PINCH_THRESHOLD"
    using far by (simp add: PINCH_THRESHOLD_def)
  ultimately have "\<not> isPinching h \<and> pinchStrength h = 0"
    using far by simp
  with h show ?thesis by blast
qed


theorem finger_count_and_gesture_label:
  assumes "processHand lms c lastHand = Some h"
  shows "0 \<le> extendedFingers h \<and> extendedFingers h \<le> 5
       \<and> gestureType h = classify (isPinching h) (extendedFingers h)
       \<and> (isPinching h \<longrightarrow> gestureType h = T_fist)
       \<and> (gestureType h = T_fist \<longrightarrow> isPinching h)
       \<and> (\<not> isPinching h \<and> extendedFingers h = 1 \<longrightarrow> gestureType h = T_one_finger)
       \<and> (\<not> isPinching h \<and> extendedFingers h = 2 \<longrightarrow> gestureType h = T_two_fingers)
       \<and> (\<not> isPinching h \<and> extendedFingers h = 3 \<longrightarrow> gestureType h = T_three_fingers)
       \<and> (\<not> isPinching h \<and> extendedFingers h = 4 \<longrightarrow> gestureType h = T_four_fingers)
       \<and> (\<not> isPinching h \<and> extendedFingers h = 5 \<longrightarrow> gestureType h = T_open_palm)"
proof -
  have "0 \<le> extendedFingers h \<and> extendedFingers h \<le> 5"
    using countExtendedFingers_bounds processHand_fields(3) [OF assms] by blast
  moreover have "gestureType h = classify (isPinching h) (extendedFingers h)"
    by (rule processHand_fields(4) [OF assms])
  ultimately show ?thesis
    by (simp add: classify_def)
qed

lemma countExtendedFingers_fourFingerHand: "countExtendedFingers (fourFingerHand 0) = Some 4"
proof -
  have "sqrt (1 / 10000) = (1 / 100 :: real)"
    by (rule real_sqrt_unique) (simp_all add: power2_eq_square)
  then show ?thesis
    by (simp add: countExtendedFingers_def fourFingerHand_def landmarkAt_def fingerTips_def
        fingerPIPs_def lm2_def hypot_def)
qed

lemma fourFingerHand_not_pinching:
  assumes "processHand (fourFingerHand dx) c lastHand = Some h"
  shows "\<not> isPinching h"
proof -
  have "PINCH_THRESHOLD \<le> sqrt ((0.44 - 0.45) * (0.44 - 0.45) + (0.6 - 0.3) * (0.6 - 0.3) + 0 * (0::real))"
    unfolding PINCH_THRESHOLD_def by (rule real_le_rsqrt) (simp add: power2_eq_square)
  then show ?thesis
    using processHand_fields(1) [OF assms]
    by (simp add: nth_fourFingerHand lm2_def distanceTo_def toVector3_def)
qed

theorem finger_count_and_gesture_label_witness:
  "\<exists>h. processHand (fourFingerHand 0) Left None = Some h
     \<and> extendedFingers h = 4 \<and> gestureType h = T_four_fingers"
proof -
  obtain h where h: "processHand (fourFingerHand 0) Left None = Some h"
    using processHand_total [of "fourFingerHand 0" Left None] by (auto simp: nth_fourFingerHand)
  have "extendedFingers h = 4"
    using processHand_fields(3) [OF h] by (simp add: countExtendedFingers_fourFingerHand)
  moreover have "\<not> isPinching h"
    by (rule fourFingerHand_not_pinching [OF h])
  ultimately have "extendedFingers h = 4 \<and> gestureType h = T_four_fingers"
    using finger_count_and_gesture_label [OF h] by blast
  with h show ?thesis by blast
qed

lemma aggregate_hands:
  "leftHand (aggregate l r) = l" "rightHand (aggregate l r) = r"
  by (auto simp: aggregate_def Let_def split: option.splits)

lemma predict_aggregate:
  assumes "predict prev detections = Some ts"
  shows "ts = aggregate (leftHand ts) (rightHand ts)"
  using assms by (auto simp: predict_def aggregate_hands split: bind_splits)

theorem aggregated_gesture_priority:
  assumes "predict prev detections = Some ts"
  shows "ts = aggregate (leftHand ts) (rightHand ts)
    \<and> (\<forall>l r. leftHand ts = Some l \<and> rightHand ts = Some r
          \<and> \<not> isPinching l \<and> \<not> isPinching r
          \<and> 0.2 < distanceTo (palmPosition l) (palmPosition r)
        \<longrightarrow> gesture ts = G_zoom
          \<and> interactionStrength ts = distanceTo (palmPosition l) (palmPosition r))
    \<and> (\<forall>h. (leftHand ts = Some h \<and> rightHand ts = None
              \<or> leftHand ts = None \<and> rightHand ts = Some h) \<and> isPinching h
        \<longrightarrow> gesture ts = G_pinch_drag \<and> interactionStrength ts = pinchStrength h)
    \<and> (\<forall>h. (leftHand ts = Some h \<and> rightHand ts = None
              \<or> leftHand ts = None \<and> rightHand ts = Some h) \<and> \<not> isPinching h
        \<longrightarrow> gesture ts = G_rotate)
    \<and> (leftHand ts = None \<and> rightHand ts = None
        \<longrightarrow> gesture ts = G_none \<and> interactionStrength ts = 0)
    \<and> (\<forall>l r. leftHand ts = Some l \<and> rightHand ts = Some r
          \<and> (isPinching l \<or> isPinching r
              \<or> distanceTo (palmPosition l) (palmPosition r) \<le> 0.2)
        \<longrightarrow> gesture ts = G_none \<and> interactionStrength ts = 0)"
proof -
  have eq: "ts = aggregate (leftHand ts) (rightHand ts)"
    by (rule predict_aggregate [OF assms])
  show ?thesis
  proof (cases "leftHand ts")
    case None
    note l = this
    show ?thesis
    proof (cases "rightHand ts")
      case None
      with l eq have "gesture ts = G_none \<and> interactionStrength ts = 0"
        by (metis (no_types, lifting) aggregate_def TrackingState.select_convs(3,4) case_prod_conv option.simps(4))
      with l None eq show ?thesis by simp
    next
      case (Some r)
      with l eq have "gesture ts = (if isPinching r then G_pinch_drag else G_rotate)"
        "isPinching r \<longrightarrow> interactionStrength ts = pinchStrength r"
        by (subst eq, simp add: aggregate_def)+
      with l Some eq show ?thesis by simp
    qed
  next
    case (Some a)
    note l = this
    show ?thesis
    proof (cases "rightHand ts")
      case None
      with l eq have "gesture ts = (if isPinching a then G_pinch_drag else G_rotate)"
        "isPinching a \<longrightarrow> interactionStrength ts = pinchStrength a"
        by (subst eq, simp add: aggregate_def)+
      with l None eq show ?thesis by simp
    next
      case (Some r)
      let ?d = "distanceTo (palmPosition a) (palmPosition r)"
      from l Some eq have
        "gesture ts = (if 0.2 < ?d \<and> \<not> isPinching a \<and> \<not> isPinching r then G_zoom else G_none)"
        "interactionStrength ts = (if 0.2 < ?d \<and> \<not> isPinching a \<and> \<not> isPinching r then ?d else 0)"
        by (subst eq, simp add: aggregate_def Let_def)+
      with l Some eq show ?thesis by (auto simp: not_less)
    qed
  qed
qed

theorem aggregated_gesture_priority_witness:
  "\<exists>ts. predict initialState [(fourFingerHand 0, Left), (fourFingerHand 0.3, Right)] = Some ts
     \<and> gesture ts = G_zoom \<and> interactionStrength ts = 0.3"
proof -
  obtain l where l: "processHand (fourFingerHand 0) Left None = Some l"
    using processHand_total [of "fourFingerHand 0" Left None] by (auto simp: nth_fourFingerHand)
  obtain r where r: "processHand (fourFingerHand 0.3) Right None = Some r"
    using processHand_total [of "fourFingerHand 0.3" Right None] by (auto simp: nth_fourFingerHand)
  define ts where "ts = aggregate (Some l) (Some r)"
  have run: "predict initialState [(fourFingerHand 0, Left), (fourFingerHand 0.3, Right)] = Some ts"
    by (simp add: predict_def initialState_def l r ts_def)
  have hands: "leftHand ts = Some l" "rightHand ts = Some r"
    by (simp_all add: ts_def aggregate_hands)
  have open_hands: "\<not> isPinching l" "\<not> isPinching r"
    using fourFingerHand_not_pinching l r by blast+
  have "sqrt (9 / 100) = (3 / 10 :: real)"
    by (rule real_sqrt_unique) (simp_all add: power2_eq_square)
  then have dist: "distanceTo (palmPosition l) (palmPosition r) = 0.3"
    using processHand_smoothed [OF l] processHand_smoothed [OF r]
    by (simp add: nth_fourFingerHand lm2_def toVector3_def distanceTo_def)
  have far: "0.2 < distanceTo (palmPosition l) (palmPosition r)"
    by (simp add: dist)
  have "gesture ts = G_zoom
      \<and> interactionStrength ts = distanceTo (palmPosition l) (palmPosition r)"
    using aggregated_gesture_priority [OF run] hands open_hands far by blast
  then have "gesture ts = G_zoom \<and> interactionStrength ts = 0.3"
    by (simp only: dist)
  with run show ?thesis by blast
qed

section \<open>Grab, release and the returned state of a frame\<close>

lemma forEachObject_all2:
  "forEachObject step objs = Some (objs', c) \<Longrightarrow>
     list_all2 (\<lambda>a b. \<exists>ck. step a = Some (b, ck)) objs objs'
     \<and> (c \<longleftrightarrow> (\<exists>k < length objs. step (objs ! k) = Some (objs' ! k, True)))"
proof (induction objs arbitrary: objs' c)
  case Nil
  then show ?case by simp
next
  case (Cons a objs)
  obtain a' ca where a: "step a = Some (a', ca)"
    using Cons.prems by (cases "step a") auto
  obtain rest' cs where r: "forEachObject step objs = Some (rest', cs)"
    using Cons.prems a by (cases "forEachObject step objs") auto
  have e: "objs' = a' # rest'" "c = (ca \<or> cs)"
    using Cons.prems a r by simp_all
  from Cons.IH [OF r] have
    ih1: "list_all2 (\<lambda>a b. \<exists>ck. step a = Some (b, ck)) objs rest'" and
    ih2: "cs \<longleftrightarrow> (\<exists>k < length objs. step (objs ! k) = Some (rest' ! k, True))"
    by blast+
  have "c \<longleftrightarrow> (\<exists>k < length (a # objs). step ((a # objs) ! k) = Some ((a' # rest') ! k, True))"
  proof
    assume c
    then consider ca | cs using e by blast
    then show "\<exists>k < length (a # objs). step ((a # objs) ! k) = Some ((a' # rest') ! k, True)"
    proof cases
      case 1
      with a show ?thesis by (intro exI [of _ 0]) simp
    next
      case 2
      with ih2 obtain k where "k < length objs" "step (objs ! k) = Some (rest' ! k, True)"
        by blast
      then show ?thesis by (intro exI [of _ "Suc k"]) simp
    qed
  next
    assume "\<exists>k < length (a # objs). step ((a # objs) ! k) = Some ((a' # rest') ! k, True)"
    then obtain k where k: "k < length (a # objs)"
      "step ((a # objs) ! k) = Some ((a' # rest') ! k, True)" by blast
    show c
    proof (cases k)
      case 0
      with k a e show ?thesis by simp
    next
      case (Suc m)
      with k ih2 e show ?thesis by auto
    qed
  qed
  with a ih1 e show ?case by auto
qed

lemma forSide_nth:
  assumes "forSide step side hs (objs, c0) = Some (objs', c)"
  shows "length objs' = length objs"
    and "k < length objs \<Longrightarrow> \<exists>ck. sideStep step side hs (objs ! k) = Some (objs' ! k, ck)"
    and "c \<longleftrightarrow> c0 \<or> (\<exists>k < length objs. sideStep step side hs (objs ! k) = Some (objs' ! k, True))"
proof -
  show "length objs' = length objs"
    using assms
    by (auto simp: forSide_def split: option.splits bind_splits dest!: forEachObject_all2 dest: list_all2_lengthD)
  show "k < length objs \<Longrightarrow> \<exists>ck. sideStep step side hs (objs ! k) = Some (objs' ! k, ck)"
    using assms
    by (auto simp: forSide_def sideStep_def list_all2_conv_all_nth
        split: option.splits bind_splits dest!: forEachObject_all2)
  show "c \<longleftrightarrow> c0 \<or> (\<exists>k < length objs. sideStep step side hs (objs ! k) = Some (objs' ! k, True))"
  proof (cases "handOf side hs")
    case None
    with assms show ?thesis by (auto simp: forSide_def sideStep_def)
  next
    case (Some hand)
    obtain it c1 where l0: "forEachObject (step side hand) objs = Some (it, c1)"
      using assms Some by (cases "forEachObject (step side hand) objs") (auto simp: forSide_def)
    have l: "forEachObject (step side hand) objs = Some (objs', c1)" and c: "c = (c0 \<or> c1)"
      using assms Some l0 by (simp_all add: forSide_def)
    from forEachObject_all2 [OF l] c Some show ?thesis by (simp add: sideStep_def)
  qed
qed

lemma forBothSides_nth:
  assumes "forBothSides step hs objs = Some (objs', c)"
  shows "length objs' = length objs"
    and "k < length objs \<Longrightarrow> \<exists>mid c1 c2. sideStep step Left hs (objs ! k) = Some (mid, c1)
            \<and> sideStep step Right hs mid = Some (objs' ! k, c2) \<and> (c1 \<or> c2 \<longrightarrow> c)"
proof -
  obtain m cm where l: "forSide step Left hs (objs, False) = Some (m, cm)"
    using assms by (cases "forSide step Left hs (objs, False)") (auto simp: forBothSides_def)
  have r: "forSide step Right hs (m, cm) = Some (objs', c)"
    using assms l by (simp add: forBothSides_def)
  show "length objs' = length objs"
    using forSide_nth(1) [OF l] forSide_nth(1) [OF r] by simp
  assume k: "k < length objs"
  then have k': "k < length m" using forSide_nth(1) [OF l] by simp
  from forSide_nth(2) [OF l k] obtain c1 where
    s1: "sideStep step Left hs (objs ! k) = Some (m ! k, c1)" by blast
  from forSide_nth(2) [OF r k'] obtain c2 where
    s2: "sideStep step Right hs (m ! k) = Some (objs' ! k, c2)" by blast
  have "c1 \<longrightarrow> cm" using forSide_nth(3) [OF l] s1 k by auto
  moreover have "cm \<longrightarrow> c" "c2 \<longrightarrow> c" using forSide_nth(3) [OF r] s2 k' by auto
  ultimately show "\<exists>mid c1 c2. sideStep step Left hs (objs ! k) = Some (mid, c1)
            \<and> sideStep step Right hs mid = Some (objs' ! k, c2) \<and> (c1 \<or> c2 \<longrightarrow> c)"
    using s1 s2 by blast
qed

text \<open>Both loops succeed when every single step does.\<close>

lemma forEachObject_total:
  assumes "\<And>a. a \<in> set objs \<Longrightarrow> \<exists>r. step a = Some r"
  shows "\<exists>r. forEachObject step objs = Some r"
  using assms
proof (induction objs)
  case Nil
  show ?case by (intro exI [of _ "([], False)"]) simp
next
  case (Cons a objs)
  obtain b c where "step a = Some (b, c)" using Cons.prems [of a] by auto
  moreover obtain bs cs where "forEachObject step objs = Some (bs, cs)"
    using Cons.IH Cons.prems by fastforce
  ultimately have "forEachObject step (a # objs) = Some (b # bs, c \<or> cs)" by simp
  then show ?case by blast
qed

lemma itemTurn_absent: "handOf side hs = None \<Longrightarrow> itemTurn side hs t a = Some (a, False)"
  by (simp add: itemTurn_def sideStep_def)

lemma itemTurn_present: "handOf side hs = Some hand \<Longrightarrow> itemTurn side hs t a = itemStep side hand t a"
  by (simp add: itemTurn_def sideStep_def)

lemma interact_nth:
  assumes "interact hs t items = Some (items', c)"
  shows "length items' = length items"
    and "k < length items \<Longrightarrow> \<exists>mid c1 c2. itemTurn Left hs t (items ! k) = Some (mid, c1)
            \<and> itemTurn Right hs t mid = Some (items' ! k, c2) \<and> (c1 \<or> c2 \<longrightarrow> c)"
  using forBothSides_nth [OF assms [unfolded interact_def]]
  by (simp_all add: itemTurn_def)

lemma grab_fields:
  assumes "grab side hand t a = Some b"
  shows "heldBy b = Some side" "position b = handPos hand"
    "eqId b = eqId a" "eqType b = eqType a" "color b = color a"
    "liquidLevel b = liquidLevel a" "liquidType b = liquidType a" "label b = label a"
  using assms by (auto simp: grab_def Let_def split: bind_splits)

lemma release_fields:
  "heldBy (release a) = None" "position (release a) = snapBack a"
  "eqRotation (release a) = euler 0 0 0"
  "eqId (release a) = eqId a" "eqType (release a) = eqType a" "color (release a) = color a"
  "liquidLevel (release a) = liquidLevel a" "liquidType (release a) = liquidType a"
  "label (release a) = label a"
  by (simp_all add: release_def)

lemma itemStep_cases:
  assumes "itemStep side hand t a = Some (b, c)"
  obtains (grabbed) "canGrab side hand a" "grab side hand t a = Some b" "c = (heldBy a \<noteq> Some side)"
  | (released) "\<not> canGrab side hand a" "mustRelease side hand a" "b = release a" "c"
  | (idle) "\<not> canGrab side hand a" "\<not> mustRelease side hand a" "b = a" "\<not> c"
proof (cases "canGrab side hand a")
  case True
  then have e: "grab side hand t a \<bind> (\<lambda>item'. Some (item', heldBy a \<noteq> Some side)) = Some (b, c)"
    using assms by (simp add: itemStep_def)
  then obtain b' where g: "grab side hand t a = Some b'"
    by (cases "grab side hand t a") simp_all
  with e have "b' = b" "c = (heldBy a \<noteq> Some side)" by simp_all
  with g True show ?thesis by (intro grabbed) simp_all
next
  case False
  note ng = this
  show ?thesis
  proof (cases "mustRelease side hand a")
    case True
    with ng assms have "b = release a" "c" by (simp_all add: itemStep_def)
    with ng True show ?thesis by (intro released)
  next
    case False
    with ng assms have "b = a" "\<not> c" by (simp_all add: itemStep_def)
    with ng False show ?thesis by (intro idle)
  qed
qed

lemma itemStep_kept:
  assumes "itemStep side hand t a = Some (b, c)"
  shows "eqId b = eqId a" "eqType b = eqType a" "color b = color a"
    "liquidLevel b = liquidLevel a" "liquidType b = liquidType a" "label b = label a"
  using assms by (cases rule: itemStep_cases; simp add: grab_fields release_fields)+

lemma itemStep_unflagged:
  assumes "itemStep side hand t a = Some (b, False)"
  shows "heldBy b = heldBy a"
  using assms by (cases rule: itemStep_cases) (simp_all add: grab_fields)

lemma itemTurn_kept:
  assumes "itemTurn side hs t a = Some (b, c)"
  shows "eqId b = eqId a" "eqType b = eqType a" "color b = color a"
    "liquidLevel b = liquidLevel a" "liquidType b = liquidType a" "label b = label a"
proof -
  have "eqId b = eqId a \<and> eqType b = eqType a \<and> color b = color a \<and>
      liquidLevel b = liquidLevel a \<and> liquidType b = liquidType a \<and> label b = label a"
  proof (cases "handOf side hs")
    case None
    with assms show ?thesis by (simp add: itemTurn_absent)
  next
    case (Some hand)
    with assms have "itemStep side hand t a = Some (b, c)" by (simp add: itemTurn_present)
    from itemStep_kept [OF this] show ?thesis by simp
  qed
  then show "eqId b = eqId a" "eqType b = eqType a" "color b = color a"
    "liquidLevel b = liquidLevel a" "liquidType b = liquidType a" "label b = label a"
    by simp_all
qed

lemma itemTurn_unflagged:
  assumes "itemTurn side hs t a = Some (b, False)"
  shows "heldBy b = heldBy a"
proof (cases "handOf side hs")
  case None
  with assms show ?thesis by (simp add: itemTurn_absent)
next
  case (Some hand)
  with assms have "itemStep side hand t a = Some (b, False)" by (simp add: itemTurn_present)
  then show ?thesis by (rule itemStep_unflagged)
qed

lemma pourStep_refl: "pourStep st st"
  by (simp add: pourStep_def)

lemma pourStep_trans: "pourStep a b \<Longrightarrow> pourStep b c \<Longrightarrow> pourStep a c"
  unfolding pourStep_def by metis

lemma map_update_same: "f x = f (xs ! j) \<Longrightarrow> map f (xs[j := x]) = map f xs"
  by (cases "j < length xs") (simp_all add: map_update list_update_same_conv list_update_beyond)

lemma transfer_pours:
  assumes "i \<noteq> j" and "pourCondition (items ! i) (items ! j)"
  shows "transfer i j (items, c) =
     ((items[i := (items ! i)\<lparr>liquidLevel := liquidLevel (items ! i) - 0.015\<rparr>])
        [j := (items ! j)\<lparr>color := (if liquidLevel (items ! j) \<le> 0.05 then color (items ! i)
                          else lerpC (color (items ! j)) (color (items ! i)) 0.1),
                liquidLevel := min 1 (liquidLevel (items ! j) + 0.015)\<rparr>], True)"
  using assms by (simp add: transfer_def Let_def)

lemma transfer_skips:
  assumes "i = j \<or> \<not> pourCondition (items ! i) (items ! j)"
  shows "transfer i j (items, c) = (items, c)"
  using assms by (auto simp: transfer_def Let_def)

lemma pourStep_transfer: "pourStep st (transfer i j st)"
proof -
  obtain items c where st: "st = (items, c)" by (cases st)
  show ?thesis
  proof (cases "i \<noteq> j \<and> pourCondition (items ! i) (items ! j)")
    case False
    then have "transfer i j st = st" unfolding st by (intro transfer_skips) blast
    then show ?thesis by (simp add: pourStep_refl)
  next
    case True
    have "map pose (fst (transfer i j (items, c))) = map pose items"
      using True by (simp add: transfer_pours map_update_same pose_def)
    then have a: "map pose (fst (transfer i j st)) = map pose (fst st)"
      by (simp add: st)
    have b: "snd (transfer i j st)"
      unfolding st using True by (simp add: transfer_pours)
    show ?thesis unfolding pourStep_def using a b by blast
  qed
qed

lemma pourStep_foldl:
  assumes "\<And>s x. pourStep s (f s x)"
  shows "pourStep st (foldl f st xs)"
proof (induction xs arbitrary: st)
  case Nil
  show ?case by (simp add: pourStep_refl)
next
  case (Cons x xs)
  have "pourStep st (f st x)" by (rule assms)
  moreover have "pourStep (f st x) (foldl f (f st x) xs)" by (rule Cons.IH)
  ultimately have "pourStep st (foldl f (f st x) xs)" by (rule pourStep_trans)
  then show ?case by simp
qed

lemma pourStep_pourFrom: "pourStep st (pourFrom i st)"
proof -
  have "pourStep st (foldl (\<lambda>s j. transfer i j s) st [0..<length (fst st)])"
    by (rule pourStep_foldl) (rule pourStep_transfer)
  then show ?thesis
    by (simp add: pourFrom_def Let_def pourStep_refl)
qed

lemma pourStep_pour: "pourStep st (pour st)"
  unfolding pour_def by (rule pourStep_foldl) (rule pourStep_pourFrom)

lemma pour_pose:
  "length (fst (pour st)) = length (fst st)"
  "k < length (fst st) \<Longrightarrow> pose (fst (pour st) ! k) = pose (fst st ! k)"
proof -
  have m: "map pose (fst (pour st)) = map pose (fst st)"
    using pourStep_pour [of st] by (simp add: pourStep_def)
  from arg_cong [OF m, of length] show l: "length (fst (pour st)) = length (fst st)"
    by simp
  assume k: "k < length (fst st)"
  from arg_cong [OF m, of "\<lambda>xs. xs ! k"] show "pose (fst (pour st) ! k) = pose (fst st ! k)"
    using k l by simp
qed

lemma shareObjects_unflagged:
  assumes "interact hs t items = Some (nxt, False)"
  shows "shareObjects items nxt = nxt"
proof (rule nth_equalityI)
  have len: "length nxt = length items" by (rule interact_nth(1) [OF assms])
  then show "length (shareObjects items nxt) = length nxt"
    by (simp add: shareObjects_def)
  fix k assume "k < length (shareObjects items nxt)"
  then have k: "k < length items" by (simp add: shareObjects_def)
  from interact_nth(2) [OF assms k] obtain mid where
    l: "itemTurn Left hs t (items ! k) = Some (mid, False)" and
    r: "itemTurn Right hs t mid = Some (nxt ! k, False)"
    by auto
  have "(items ! k)\<lparr>position := position (nxt ! k), eqRotation := eqRotation (nxt ! k),
      color := color (nxt ! k)\<rparr> = nxt ! k"
    by (rule Equipment.equality)
      (simp_all add: itemTurn_unflagged [OF l] itemTurn_unflagged [OF r]
        itemTurn_kept [OF l] itemTurn_kept [OF r])
  then show "shareObjects items nxt ! k = nxt ! k"
    using k len by (simp add: shareObjects_def)
qed

lemma frame_working_copy:
  "frame hs t items = (case interact hs t items of None \<Rightarrow> None | Some st \<Rightarrow> Some (fst (pour st)))"
proof (cases "interact hs t items")
  case None
  then show ?thesis by (simp add: frame_def)
next
  case (Some st)
  obtain nxt c where p: "pour st = (nxt, c)" by (cases "pour st")
  show ?thesis
  proof (cases c)
    case True
    with Some p show ?thesis by (simp add: frame_def)
  next
    case False
    with p have same: "pour st = st" using pourStep_pour [of st] by (simp add: pourStep_def)
    with False p have "interact hs t items = Some (nxt, False)" using Some by simp
    from shareObjects_unflagged [OF this] Some False p show ?thesis
      by (simp add: frame_def)
  qed
qed

lemma frame_Some:
  assumes "frame hs t items = Some items'"
  obtains st where "interact hs t items = Some st" "items' = fst (pour st)"
proof (cases "interact hs t items")
  case None
  with assms show ?thesis by (simp add: frame_working_copy)
next
  case (Some st)
  with assms have "items' = fst (pour st)" by (simp add: frame_working_copy)
  with Some that show ?thesis by blast
qed

lemma frame_nth:
  assumes "frame hs t items = Some items'" and "k < length items"
  shows "length items' = length items"
    and "\<exists>mid fin c1 c2. itemTurn Left hs t (items ! k) = Some (mid, c1)
          \<and> itemTurn Right hs t mid = Some (fin, c2) \<and> pose (items' ! k) = pose fin"
proof -
  from assms(1) obtain st where i: "interact hs t items = Some st" and r: "items' = fst (pour st)"
    by (rule frame_Some)
  obtain nxt c where st: "st = (nxt, c)" by (cases st)
  have i': "interact hs t items = Some (nxt, c)" using i st by simp
  have len: "length nxt = length items" by (rule interact_nth(1) [OF i'])
  show "length items' = length items" using pour_pose(1) [of st] len r st by simp
  from interact_nth(2) [OF i' assms(2)] obtain mid c1 c2 where
    s: "itemTurn Left hs t (items ! k) = Some (mid, c1)"
    "itemTurn Right hs t mid = Some (nxt ! k, c2)" by blast
  have "pose (items' ! k) = pose (nxt ! k)"
    using pour_pose(2) [of k st] assms(2) len r st by simp
  with s show "\<exists>mid fin c1 c2. itemTurn Left hs t (items ! k) = Some (mid, c1)
          \<and> itemTurn Right hs t mid = Some (fin, c2) \<and> pose (items' ! k) = pose fin"
    by blast
qed

lemma handOf_cases:
  obtains (absent) "handOf side hs = None" | (present) hand where "handOf side hs = Some hand"
  by (cases "handOf side hs") auto

lemma itemStep_other_side:
  "heldBy a = Some s \<Longrightarrow> side \<noteq> s \<Longrightarrow> itemStep side hand t a = Some (a, False)"
  by (simp add: itemStep_def canGrab_def mustRelease_def)

lemma itemTurn_other_side:
  "heldBy a = Some s \<Longrightarrow> side \<noteq> s \<Longrightarrow> itemTurn side hs t a = Some (a, False)"
  by (cases rule: handOf_cases [of side hs])
    (simp_all add: itemTurn_absent itemTurn_present itemStep_other_side)

lemma itemTurn_keeps_hold:
  assumes "itemTurn s hs t a = Some (b, c)" and "heldBy a = Some s"
    and "\<not> (\<exists>hand. handOf s hs = Some hand \<and> \<not> isPinching hand)"
  shows "heldBy b = Some s"
proof (cases rule: handOf_cases [of s hs])
  case absent
  with assms show ?thesis by (simp add: itemTurn_absent)
next
  case (present hand)
  with assms(3) have pinch: "isPinching hand" by simp
  from assms(1) present have "itemStep s hand t a = Some (b, c)" by (simp add: itemTurn_present)
  then show ?thesis
  proof (cases rule: itemStep_cases)
    case grabbed
    then show ?thesis by (simp add: grab_fields)
  next
    case released
    with pinch show ?thesis by (simp add: mustRelease_def)
  next
    case idle
    with assms(2) show ?thesis by simp
  qed
qed

lemma itemTurn_releases:
  assumes "handOf s hs = Some hand" and "\<not> isPinching hand" and "heldBy a = Some s"
  shows "itemTurn s hs t a = Some (release a, True)"
  using assms by (simp add: itemTurn_present itemStep_def canGrab_def mustRelease_def)

lemma itemTurn_takes:
  assumes "itemTurn s hs t a = Some (b, c)" and "heldBy b = Some s" and "heldBy a \<noteq> Some s"
  shows "heldBy a = None \<and> (\<exists>hand. handOf s hs = Some hand \<and> canGrab s hand a
           \<and> position b = handPos hand)"
proof (cases rule: handOf_cases [of s hs])
  case absent
  with assms show ?thesis by (simp add: itemTurn_absent)
next
  case (present hand)
  from assms(1) present have "itemStep s hand t a = Some (b, c)" by (simp add: itemTurn_present)
  then show ?thesis
  proof (cases rule: itemStep_cases)
    case grabbed
    with assms(3) present show ?thesis by (auto simp: grab_fields canGrab_def)
  next
    case released
    with assms(2) show ?thesis by (simp add: release_fields)
  next
    case idle
    with assms show ?thesis by simp
  qed
qed

lemma itemTurn_heldBy_cases:
  assumes "itemTurn s hs t a = Some (b, c)"
  shows "heldBy b = heldBy a \<or> heldBy a = None \<and> heldBy b = Some s
         \<or> heldBy a = Some s \<and> heldBy b = None"
proof (cases rule: handOf_cases [of s hs])
  case absent
  with assms show ?thesis by (simp add: itemTurn_absent)
next
  case (present hand)
  from assms(1) present have "itemStep s hand t a = Some (b, c)" by (simp add: itemTurn_present)
  then show ?thesis
  proof (cases rule: itemStep_cases)
    case grabbed
    then show ?thesis by (auto simp: grab_fields canGrab_def)
  next
    case released
    then show ?thesis by (simp add: release_fields mustRelease_def)
  next
    case idle
    then show ?thesis by simp
  qed
qed

text \<open>Frame level: pose of one object.\<close>

lemma pose_simps:
  "pose a = pose b \<longleftrightarrow> heldBy a = heldBy b \<and> position a = position b
     \<and> eqRotation a = eqRotation b \<and> eqType a = eqType b"
  by (auto simp: pose_def)

lemma frame_hand_absent:
  assumes "frame hs t items = Some items'" and "k < length items"
    and "heldBy (items ! k) = Some side" and "handOf side hs = None"
  shows "pose (items' ! k) = pose (items ! k)"
proof -
  from frame_nth(2) [OF assms(1,2)] obtain mid fin c1 c2 where
    l: "itemTurn Left hs t (items ! k) = Some (mid, c1)" and
    r: "itemTurn Right hs t mid = Some (fin, c2)" and
    p: "pose (items' ! k) = pose fin" by blast
  have "mid = items ! k"
    using l assms(3,4) itemTurn_other_side [of "items ! k" side Left hs t]
    by (cases "side = Left") (simp_all add: itemTurn_absent)
  moreover have "fin = mid"
    using r assms(3,4) itemTurn_other_side [of mid side Right hs t] \<open>mid = items ! k\<close>
    by (cases "side = Right") (simp_all add: itemTurn_absent)
  ultimately show ?thesis using p by simp
qed

lemma frame_keeps_hold:
  assumes "frame hs t items = Some items'" and "k < length items"
    and "heldBy (items ! k) = Some side"
    and "\<not> (\<exists>hand. handOf side hs = Some hand \<and> \<not> isPinching hand)"
  shows "heldBy (items' ! k) = Some side"
proof -
  from frame_nth(2) [OF assms(1,2)] obtain mid fin c1 c2 where
    l: "itemTurn Left hs t (items ! k) = Some (mid, c1)" and
    r: "itemTurn Right hs t mid = Some (fin, c2)" and
    p: "pose (items' ! k) = pose fin" by blast
  have m: "heldBy mid = Some side"
  proof (cases "side = Left")
    case True
    with l assms(3,4) show ?thesis using itemTurn_keeps_hold [of Left hs t "items ! k" mid c1] by simp
  next
    case False
    with l assms(3) show ?thesis using itemTurn_other_side [of "items ! k" side Left hs t] by simp
  qed
  have "heldBy fin = Some side"
  proof (cases "side = Right")
    case True
    with r m assms(4) show ?thesis using itemTurn_keeps_hold [of Right hs t mid fin c2] by simp
  next
    case False
    with r m show ?thesis using itemTurn_other_side [of mid side Right hs t] by simp
  qed
  with p show ?thesis by (simp add: pose_simps)
qed

lemma frames_hand_absent:
  assumes "frames ins items = Some items'" and "k < length items"
    and "heldBy (items ! k) = Some side"
    and "\<forall>(hs, t) \<in> set ins. handOf side hs = None"
  shows "length items' = length items \<and> pose (items' ! k) = pose (items ! k)"
  using assms
proof (induction ins arbitrary: items)
  case Nil
  then show ?case by simp
next
  case (Cons i ins)
  obtain hs t where i: "i = (hs, t)" by (cases i)
  obtain mid where f: "frame hs t items = Some mid"
    using Cons.prems(1) i by (cases "frame hs t items") simp_all
  with Cons.prems(1) i have rest: "frames ins mid = Some items'" by simp
  have absent: "handOf side hs = None" using Cons.prems(4) i by simp
  have len: "length mid = length items" by (rule frame_nth(1) [OF f Cons.prems(2)])
  have p: "pose (mid ! k) = pose (items ! k)"
    by (rule frame_hand_absent [OF f Cons.prems(2,3) absent])
  then have h: "heldBy (mid ! k) = Some side" using Cons.prems(3) by (simp add: pose_simps)
  have "length items' = length mid \<and> pose (items' ! k) = pose (mid ! k)"
    using Cons.IH [OF rest _ h] Cons.prems(2,4) len by simp
  with len p show ?case by simp
qed

lemma tubeTurn_absent: "handOf side hs = None \<Longrightarrow> tubeTurn side hs a = Some (a, False)"
  by (simp add: tubeTurn_def sideStep_def)

lemma tubeTurn_present: "handOf side hs = Some hand \<Longrightarrow> tubeTurn side hs a = tubeStep side hand a"
  by (simp add: tubeTurn_def sideStep_def)

lemma interactPage_nth:
  assumes "interactPage hs tubes = Some (tubes', c)"
  shows "length tubes' = length tubes"
    and "k < length tubes \<Longrightarrow> \<exists>mid c1 c2. tubeTurn Left hs (tubes ! k) = Some (mid, c1)
            \<and> tubeTurn Right hs mid = Some (tubes' ! k, c2) \<and> (c1 \<or> c2 \<longrightarrow> c)"
  using forBothSides_nth [OF assms [unfolded interactPage_def]]
  by (simp_all add: tubeTurn_def)

lemma grabPage_fields:
  assumes "grabPage side hand a = Some b"
  shows "ttHeldBy b = Some side" "ttPosition b = handPosPage hand"
    "ttId b = ttId a" "ttColor b = ttColor a" "liquidColor b = liquidColor a"
    "ttLiquidLevel b = ttLiquidLevel a" "chemicalType b = chemicalType a" "ttLabel b = ttLabel a"
  using assms by (auto simp: grabPage_def split: bind_splits)

lemma releasePage_fields:
  "ttHeldBy (releasePage a) = None" "ttPosition (releasePage a) = (ttPosition a)\<lparr>vy := 0\<rparr>"
  "ttRotation (releasePage a) = euler 0 0 0"
  "ttId (releasePage a) = ttId a" "ttColor (releasePage a) = ttColor a"
  "liquidColor (releasePage a) = liquidColor a"
  "ttLiquidLevel (releasePage a) = ttLiquidLevel a" "chemicalType (releasePage a) = chemicalType a"
  "ttLabel (releasePage a) = ttLabel a"
  by (simp_all add: releasePage_def)

lemma tubeStep_cases:
  assumes "tubeStep side hand a = Some (b, c)"
  obtains (grabbed) "canGrabPage side hand a" "grabPage side hand a = Some b" "c = (ttHeldBy a \<noteq> Some side)"
  | (released) "\<not> canGrabPage side hand a" "mustReleasePage side hand a" "b = releasePage a" "c"
  | (idle) "\<not> canGrabPage side hand a" "\<not> mustReleasePage side hand a" "b = a" "\<not> c"
proof (cases "canGrabPage side hand a")
  case True
  then have e: "grabPage side hand a \<bind> (\<lambda>tube'. Some (tube', ttHeldBy a \<noteq> Some side)) = Some (b, c)"
    using assms by (simp add: tubeStep_def)
  then obtain b' where g: "grabPage side hand a = Some b'"
    by (cases "grabPage side hand a") simp_all
  with e have "b' = b" "c = (ttHeldBy a \<noteq> Some side)" by simp_all
  with g True show ?thesis by (intro grabbed) simp_all
next
  case False
  note ng = this
  show ?thesis
  proof (cases "mustReleasePage side hand a")
    case True
    with ng assms have "b = releasePage a" "c" by (simp_all add: tubeStep_def)
    with ng True show ?thesis by (intro released)
  next
    case False
    with ng assms have "b = a" "\<not> c" by (simp_all add: tubeStep_def)
    with ng False show ?thesis by (intro idle)
  qed
qed

lemma tubeStep_kept:
  assumes "tubeStep side hand a = Some (b, c)"
  shows "ttId b = ttId a" "ttColor b = ttColor a" "liquidColor b = liquidColor a"
    "ttLiquidLevel b = ttLiquidLevel a" "chemicalType b = chemicalType a" "ttLabel b = ttLabel a"
  using assms by (cases rule: tubeStep_cases; simp add: grabPage_fields releasePage_fields)+

lemma tubeStep_unflagged:
  assumes "tubeStep side hand a = Some (b, False)"
  shows "ttHeldBy b = ttHeldBy a"
  using assms by (cases rule: tubeStep_cases) (simp_all add: grabPage_fields)

lemma tubeTurn_kept:
  assumes "tubeTurn side hs a = Some (b, c)"
  shows "ttId b = ttId a" "ttColor b = ttColor a" "liquidColor b = liquidColor a"
    "ttLiquidLevel b = ttLiquidLevel a" "chemicalType b = chemicalType a" "ttLabel b = ttLabel a"
proof -
  have "ttId b = ttId a \<and> ttColor b = ttColor a \<and> liquidColor b = liquidColor a \<and>
    ttLiquidLevel b = ttLiquidLevel a \<and> chemicalType b = chemicalType a \<and> ttLabel b = ttLabel a"
  proof (cases rule: handOf_cases [of side hs])
    case absent
    with assms show ?thesis by (simp add: tubeTurn_absent)
  next
    case (present hand)
    with assms have "tubeStep side hand a = Some (b, c)" by (simp add: tubeTurn_present)
    from tubeStep_kept [OF this] show ?thesis by simp
  qed
  then show "ttId b = ttId a" "ttColor b = ttColor a" "liquidColor b = liquidColor a"
    "ttLiquidLevel b = ttLiquidLevel a" "chemicalType b = chemicalType a" "ttLabel b = ttLabel a"
    by simp_all
qed

lemma tubeTurn_unflagged:
  assumes "tubeTurn side hs a = Some (b, False)"
  shows "ttHeldBy b = ttHeldBy a"
proof (cases rule: handOf_cases [of side hs])
  case absent
  with assms show ?thesis by (simp add: tubeTurn_absent)
next
  case (present hand)
  with assms have "tubeStep side hand a = Some (b, False)" by (simp add: tubeTurn_present)
  then show ?thesis by (rule tubeStep_unflagged)
qed

lemma reactStep_refl: "reactStep st st"
  by (simp add: reactStep_def)

lemma reactStep_trans: "reactStep a b \<Longrightarrow> reactStep b c \<Longrightarrow> reactStep a c"
  unfolding reactStep_def by metis

lemma reactStep_react: "reactStep st (react i j st)"
proof -
  obtain tubes c where st: "st = (tubes, c)" by (cases st)
  let ?cond = "distanceTo (ttPosition (tubes ! i)) (ttPosition (tubes ! j)) < 1.5
         \<and> 0.1 < ttLiquidLevel (tubes ! i) \<and> 0.1 < ttLiquidLevel (tubes ! j)"
  show ?thesis
  proof (cases ?cond)
    case False
    then have "react i j st = st" by (auto simp: st react_def Let_def)
    then show ?thesis by (simp add: reactStep_refl)
  next
    case True
    let ?a = "(tubes ! i)\<lparr>ttLiquidLevel := max 0 (ttLiquidLevel (tubes ! i) - 0.01)\<rparr>"
    let ?b = "(tubes ! j)\<lparr>ttLiquidLevel := max 0 (ttLiquidLevel (tubes ! j) - 0.01)\<rparr>"
    have r: "react i j (tubes, c) = ((tubes[i := ?a])[j := ?b], True)"
      using True by (simp add: react_def Let_def)
    have pa: "posePage ?a = posePage (tubes ! i)" and pb: "posePage ?b = posePage (tubes ! j)"
      by (simp_all add: posePage_def)
    have "map posePage ((tubes[i := ?a])[j := ?b]) = (map posePage (tubes[i := ?a]))[j := posePage (tubes ! j)]"
      by (simp only: map_update pb)
    also have "map posePage (tubes[i := ?a]) = map posePage tubes"
      by (rule map_update_same) (rule pa)
    also have "(map posePage tubes)[j := posePage (tubes ! j)] = map posePage tubes"
      by (cases "j < length tubes") (simp_all add: list_update_same_conv list_update_beyond)
    finally have a: "map posePage (fst (react i j st)) = map posePage (fst st)"
      by (simp add: st r)
    have b: "snd (react i j st)" by (simp add: st r)
    show ?thesis unfolding reactStep_def using a b by blast
  qed
qed

lemma reactStep_foldl:
  assumes "\<And>s x. reactStep s (f s x)"
  shows "reactStep st (foldl f st xs)"
proof (induction xs arbitrary: st)
  case Nil
  show ?case by (simp add: reactStep_refl)
next
  case (Cons x xs)
  have "reactStep st (f st x)" by (rule assms)
  moreover have "reactStep (f st x) (foldl f (f st x) xs)" by (rule Cons.IH)
  ultimately have "reactStep st (foldl f (f st x) xs)" by (rule reactStep_trans)
  then show ?case by simp
qed

lemma reactStep_reactions: "reactStep st (reactions st)"
  unfolding reactions_def
  by (rule reactStep_foldl) (rule reactStep_foldl, rule reactStep_react)

lemma reactions_pose:
  "length (fst (reactions st)) = length (fst st)"
  "k < length (fst st) \<Longrightarrow> posePage (fst (reactions st) ! k) = posePage (fst st ! k)"
proof -
  have m: "map posePage (fst (reactions st)) = map posePage (fst st)"
    using reactStep_reactions [of st] by (simp add: reactStep_def)
  from arg_cong [OF m, of length] show l: "length (fst (reactions st)) = length (fst st)"
    by simp
  assume k: "k < length (fst st)"
  from arg_cong [OF m, of "\<lambda>xs. xs ! k"]
  show "posePage (fst (reactions st) ! k) = posePage (fst st ! k)"
    using k l by simp
qed

lemma shareObjectsPage_unflagged:
  assumes "interactPage hs tubes = Some (nxt, False)"
  shows "shareObjectsPage tubes nxt = nxt"
proof (rule nth_equalityI)
  have len: "length nxt = length tubes" by (rule interactPage_nth(1) [OF assms])
  then show "length (shareObjectsPage tubes nxt) = length nxt"
    by (simp add: shareObjectsPage_def)
  fix k assume "k < length (shareObjectsPage tubes nxt)"
  then have k: "k < length tubes" by (simp add: shareObjectsPage_def)
  from interactPage_nth(2) [OF assms k] obtain mid where
    l: "tubeTurn Left hs (tubes ! k) = Some (mid, False)" and
    r: "tubeTurn Right hs mid = Some (nxt ! k, False)"
    by auto
  have "(tubes ! k)\<lparr>ttPosition := ttPosition (nxt ! k), ttRotation := ttRotation (nxt ! k),
      ttColor := ttColor (nxt ! k)\<rparr> = nxt ! k"
    by (rule TestTube.equality)
      (simp_all add: tubeTurn_unflagged [OF l] tubeTurn_unflagged [OF r]
        tubeTurn_kept [OF l] tubeTurn_kept [OF r])
  then show "shareObjectsPage tubes nxt ! k = nxt ! k"
    using k len by (simp add: shareObjectsPage_def)
qed

lemma framePage_working_copy:
  "framePage hs tubes =
     (case interactPage hs tubes of None \<Rightarrow> None | Some st \<Rightarrow> Some (fst (reactions st)))"
proof (cases "interactPage hs tubes")
  case None
  then show ?thesis by (simp add: framePage_def)
next
  case (Some st)
  obtain nxt c where p: "reactions st = (nxt, c)" by (cases "reactions st")
  show ?thesis
  proof (cases c)
    case True
    with Some p show ?thesis by (simp add: framePage_def)
  next
    case False
    with p have same: "reactions st = st"
      using reactStep_reactions [of st] by (simp add: reactStep_def)
    with False p have "interactPage hs tubes = Some (nxt, False)" using Some by simp
    from shareObjectsPage_unflagged [OF this] Some False p show ?thesis
      by (simp add: framePage_def)
  qed
qed

lemma framePage_nth:
  assumes "framePage hs tubes = Some tubes'" and "k < length tubes"
  shows "length tubes' = length tubes"
    and "\<exists>mid fin c1 c2. tubeTurn Left hs (tubes ! k) = Some (mid, c1)
          \<and> tubeTurn Right hs mid = Some (fin, c2) \<and> posePage (tubes' ! k) = posePage fin"
proof -
  obtain st where i: "interactPage hs tubes = Some st" and r: "tubes' = fst (reactions st)"
    using assms(1) by (cases "interactPage hs tubes") (simp_all add: framePage_working_copy)
  obtain nxt c where st: "st = (nxt, c)" by (cases st)
  have i': "interactPage hs tubes = Some (nxt, c)" using i st by simp
  have len: "length nxt = length tubes" by (rule interactPage_nth(1) [OF i'])
  show "length tubes' = length tubes" using reactions_pose(1) [of st] len r st by simp
  from interactPage_nth(2) [OF i' assms(2)] obtain mid c1 c2 where
    s: "tubeTurn Left hs (tubes ! k) = Some (mid, c1)"
    "tubeTurn Right hs mid = Some (nxt ! k, c2)" by blast
  have "posePage (tubes' ! k) = posePage (nxt ! k)"
    using reactions_pose(2) [of k st] assms(2) len r st by simp
  with s show "\<exists>mid fin c1 c2. tubeTurn Left hs (tubes ! k) = Some (mid, c1)
          \<and> tubeTurn Right hs mid = Some (fin, c2) \<and> posePage (tubes' ! k) = posePage fin"
    by blast
qed

lemma tubeStep_other_side:
  "ttHeldBy a = Some s \<Longrightarrow> side \<noteq> s \<Longrightarrow> tubeStep side hand a = Some (a, False)"
  by (simp add: tubeStep_def canGrabPage_def mustReleasePage_def)

lemma tubeTurn_other_side:
  "ttHeldBy a = Some s \<Longrightarrow> side \<noteq> s \<Longrightarrow> tubeTurn side hs a = Some (a, False)"
  by (cases rule: handOf_cases [of side hs])
    (simp_all add: tubeTurn_absent tubeTurn_present tubeStep_other_side)

lemma tubeTurn_keeps_hold:
  assumes "tubeTurn s hs a = Some (b, c)" and "ttHeldBy a = Some s"
    and "\<not> (\<exists>hand. handOf s hs = Some hand \<and> \<not> isPinching hand)"
  shows "ttHeldBy b = Some s"
proof (cases rule: handOf_cases [of s hs])
  case absent
  with assms show ?thesis by (simp add: tubeTurn_absent)
next
  case (present hand)
  with assms(3) have pinch: "isPinching hand" by simp
  from assms(1) present have "tubeStep s hand a = Some (b, c)" by (simp add: tubeTurn_present)
  then show ?thesis
  proof (cases rule: tubeStep_cases)
    case grabbed
    then show ?thesis by (simp add: grabPage_fields)
  next
    case released
    with pinch show ?thesis by (simp add: mustReleasePage_def)
  next
    case idle
    with assms(2) show ?thesis by simp
  qed
qed

lemma tubeTurn_releases:
  assumes "handOf s hs = Some hand" and "\<not> isPinching hand" and "ttHeldBy a = Some s"
  shows "tubeTurn s hs a = Some (releasePage a, True)"
  using assms by (simp add: tubeTurn_present tubeStep_def canGrabPage_def mustReleasePage_def)

lemma tubeTurn_takes:
  assumes "tubeTurn s hs a = Some (b, c)" and "ttHeldBy b = Some s" and "ttHeldBy a \<noteq> Some s"
  shows "ttHeldBy a = None \<and> (\<exists>hand. handOf s hs = Some hand \<and> canGrabPage s hand a
           \<and> ttPosition b = handPosPage hand)"
proof (cases rule: handOf_cases [of s hs])
  case absent
  with assms show ?thesis by (simp add: tubeTurn_absent)
next
  case (present hand)
  from assms(1) present have "tubeStep s hand a = Some (b, c)" by (simp add: tubeTurn_present)
  then show ?thesis
  proof (cases rule: tubeStep_cases)
    case grabbed
    with assms(3) present show ?thesis by (auto simp: grabPage_fields canGrabPage_def)
  next
    case released
    with assms(2) show ?thesis by (simp add: releasePage_fields)
  next
    case idle
    with assms show ?thesis by simp
  qed
qed

lemma tubeTurn_heldBy_cases:
  assumes "tubeTurn s hs a = Some (b, c)"
  shows "ttHeldBy b = ttHeldBy a \<or> ttHeldBy a = None \<and> ttHeldBy b = Some s
         \<or> ttHeldBy a = Some s \<and> ttHeldBy b = None"
proof (cases rule: handOf_cases [of s hs])
  case absent
  with assms show ?thesis by (simp add: tubeTurn_absent)
next
  case (present hand)
  from assms(1) present have "tubeStep s hand a = Some (b, c)" by (simp add: tubeTurn_present)
  then show ?thesis
  proof (cases rule: tubeStep_cases)
    case grabbed
    then show ?thesis by (auto simp: grabPage_fields canGrabPage_def)
  next
    case released
    then show ?thesis by (simp add: releasePage_fields mustReleasePage_def)
  next
    case idle
    then show ?thesis by simp
  qed
qed

lemma posePage_simps:
  "posePage a = posePage b \<longleftrightarrow> ttHeldBy a = ttHeldBy b \<and> ttPosition a = ttPosition b
     \<and> ttRotation a = ttRotation b"
  by (auto simp: posePage_def)

lemma framePage_hand_absent:
  assumes "framePage hs tubes = Some tubes'" and "k < length tubes"
    and "ttHeldBy (tubes ! k) = Some side" and "handOf side hs = None"
  shows "posePage (tubes' ! k) = posePage (tubes ! k)"
proof -
  from framePage_nth(2) [OF assms(1,2)] obtain mid fin c1 c2 where
    l: "tubeTurn Left hs (tubes ! k) = Some (mid, c1)" and
    r: "tubeTurn Right hs mid = Some (fin, c2)" and
    p: "posePage (tubes' ! k) = posePage fin" by blast
  have m: "mid = tubes ! k"
    using l assms(3,4) tubeTurn_other_side [of "tubes ! k" side Left hs]
    by (cases "side = Left") (simp_all add: tubeTurn_absent)
  have "fin = mid"
    using r assms(3,4) tubeTurn_other_side [of mid side Right hs] m
    by (cases "side = Right") (simp_all add: tubeTurn_absent)
  with m show ?thesis using p by simp
qed

lemma framePage_keeps_hold:
  assumes "framePage hs tubes = Some tubes'" and "k < length tubes"
    and "ttHeldBy (tubes ! k) = Some side"
    and "\<not> (\<exists>hand. handOf side hs = Some hand \<and> \<not> isPinching hand)"
  shows "ttHeldBy (tubes' ! k) = Some side"
proof -
  from framePage_nth(2) [OF assms(1,2)] obtain mid fin c1 c2 where
    l: "tubeTurn Left hs (tubes ! k) = Some (mid, c1)" and
    r: "tubeTurn Right hs mid = Some (fin, c2)" and
    p: "posePage (tubes' ! k) = posePage fin" by blast
  have m: "ttHeldBy mid = Some side"
  proof (cases "side = Left")
    case True
    with l assms(3,4) show ?thesis using tubeTurn_keeps_hold [of Left hs "tubes ! k" mid c1] by simp
  next
    case False
    with l assms(3) show ?thesis using tubeTurn_other_side [of "tubes ! k" side Left hs] by simp
  qed
  have "ttHeldBy fin = Some side"
  proof (cases "side = Right")
    case True
    with r m assms(4) show ?thesis using tubeTurn_keeps_hold [of Right hs mid fin c2] by simp
  next
    case False
    with r m show ?thesis using tubeTurn_other_side [of mid side Right hs] by simp
  qed
  with p show ?thesis by (simp add: posePage_simps)
qed

text \<open>A frame goes through when the hands carry the landmarks the grab reads.\<close>

lemma itemStep_total:
  assumes "pointingAngle hand \<noteq> None"
  shows "\<exists>r. itemStep side hand t a = Some r"
  using assms by (auto simp: itemStep_def grab_def Let_def)

lemma tubeStep_total:
  assumes "pointingAngle hand \<noteq> None"
  shows "\<exists>r. tubeStep side hand a = Some r"
  using assms by (auto simp: tubeStep_def grabPage_def)

lemma forSide_total:
  assumes "\<forall>hand a. handOf side hs = Some hand \<longrightarrow> (\<exists>r. step side hand a = Some r)"
  shows "\<exists>r. forSide step side hs st = Some r"
proof (cases rule: handOf_cases [of side hs])
  case absent
  then show ?thesis by (simp add: forSide_def)
next
  case (present hand)
  have "\<exists>r. forEachObject (step side hand) (fst st) = Some r"
    by (rule forEachObject_total) (use assms present in blast)
  then obtain objs c where "forEachObject (step side hand) (fst st) = Some (objs, c)" by auto
  with present show ?thesis by (simp add: forSide_def)
qed

lemma forBothSides_total:
  assumes "\<forall>side hand a. handOf side hs = Some hand \<longrightarrow> (\<exists>r. step side hand a = Some r)"
  shows "\<exists>r. forBothSides step hs objs = Some r"
proof -
  obtain st where l: "forSide step Left hs (objs, False) = Some st"
    using forSide_total [of Left hs step "(objs, False)"] assms by blast
  obtain r where "forSide step Right hs st = Some r"
    using forSide_total [of Right hs step st] assms by blast
  with l show ?thesis by (simp add: forBothSides_def)
qed

lemma frame_total:
  assumes "readable hs"
  shows "\<exists>items'. frame hs t items = Some items'"
proof -
  have "\<exists>r. interact hs t items = Some r"
    unfolding interact_def
    by (rule forBothSides_total) (use assms itemStep_total in \<open>auto simp: readable_def\<close>)
  then show ?thesis by (auto simp: frame_working_copy)
qed

lemma framePage_total:
  assumes "readable hs"
  shows "\<exists>tubes'. framePage hs tubes = Some tubes'"
proof -
  have "\<exists>r. interactPage hs tubes = Some r"
    unfolding interactPage_def
    by (rule forBothSides_total) (use assms tubeStep_total in \<open>auto simp: readable_def\<close>)
  then show ?thesis by (auto simp: framePage_working_copy)
qed

lemma frames_total:
  assumes "\<forall>i \<in> set ins. readable (fst i)"
  shows "\<exists>items'. frames ins items = Some items'"
  using assms
proof (induction ins arbitrary: items)
  case Nil
  show ?case by simp
next
  case (Cons i ins)
  obtain hs t where i: "i = (hs, t)" by (cases i)
  have "readable hs" using Cons.prems i by simp
  from frame_total [OF this] obtain mid where m: "frame hs t items = Some mid"
    by blast
  have "\<exists>r. frames ins mid = Some r"
    by (rule Cons.IH) (use Cons.prems in simp)
  then obtain r where "frames ins mid = Some r" by blast
  with m i show ?case by simp
qed

text \<open>Sample inputs.\<close>

lemma handOf_initialState [simp]: "handOf side initialState = None"
  by (simp add: handOf_def initialState_def)

lemma handOf_leftOnly [simp]:
  "handOf Left (leftOnly h) = Some h" "handOf Right (leftOnly h) = None"
  by (simp_all add: handOf_def leftOnly_def aggregate_def)

lemma handOf_rightOnly [simp]:
  "handOf Right (rightOnly h) = Some h" "handOf Left (rightOnly h) = None"
  by (simp_all add: handOf_def rightOnly_def aggregate_def)

lemma handOf_one_hand:
  "handOf side (rightOnly h) = Some hand \<Longrightarrow> hand = h"
  "handOf side (leftOnly h) = Some hand \<Longrightarrow> hand = h"
  by (cases side; simp)+

lemma pointingAngle_sampleHand: "pointingAngle (sampleHand side p px py) \<noteq> None"
  by (simp add: pointingAngle_def sampleHand_def landmarkAt_def fourFingerHand_def)

lemma readable_samples [simp]:
  "readable initialState"
  "readable (leftOnly (sampleHand s p px py))"
  "readable (rightOnly (sampleHand s p px py))"
  using pointingAngle_sampleHand
  by (auto simp: readable_def dest!: handOf_one_hand)

lemma sampleHand_fields [simp]:
  "isPinching (sampleHand side p px py) = p"
  "pinchPosition (sampleHand side p px py) = \<lparr>vx = px, vy = py, vz = 0\<rparr>"
  by (simp_all add: sampleHand_def)

lemma heldScene_first [simp]:
  "length heldScene = 8" "heldBy (heldScene ! 0) = Some Left"
  "position (heldScene ! 0) = vector3 (- 4) (- 1) 0" "eqRotation (heldScene ! 0) = euler 0 0 0"
  "eqType (heldScene ! 0) = TEST_TUBE"
  by (simp_all add: heldScene_def INITIAL_ITEMS_def)

lemma heldTubes_first [simp]:
  "length heldTubes = 4" "ttHeldBy (heldTubes ! 0) = Some Left"
  "ttPosition (heldTubes ! 0) = vector3 (- 3) 0 0" "ttRotation (heldTubes ! 0) = euler 0 0 0"
  by (simp_all add: heldTubes_def INITIAL_TUBES_def)

text \<open>Release at frame level.\<close>

lemma frame_releases:
  assumes "frame hs t items = Some items'" and "k < length items"
    and "heldBy (items ! k) = Some side"
    and "handOf side hs = Some hand" and "\<not> isPinching hand"
  shows "heldBy (items' ! k) \<noteq> Some side"
    and "heldBy (items' ! k) = None \<or> side = Left \<and> heldBy (items' ! k) = Some Right"
proof -
  from frame_nth(2) [OF assms(1,2)] obtain mid fin c1 c2 where
    l: "itemTurn Left hs t (items ! k) = Some (mid, c1)" and
    r: "itemTurn Right hs t mid = Some (fin, c2)" and
    p: "pose (items' ! k) = pose fin" by blast
  have "heldBy fin = None \<or> side = Left \<and> heldBy fin = Some Right"
  proof (cases side)
    case Left
    with l assms have "mid = release (items ! k)" by (simp add: itemTurn_releases)
    then have "heldBy mid = None" by (simp add: release_fields)
    with itemTurn_heldBy_cases [OF r] Left show ?thesis by auto
  next
    case Right
    with l assms(3) have "mid = items ! k"
      using itemTurn_other_side [of "items ! k" Right Left hs t] by simp
    with r assms Right have "fin = release (items ! k)" by (simp add: itemTurn_releases)
    then show ?thesis by (simp add: release_fields)
  qed
  with p show "heldBy (items' ! k) = None \<or> side = Left \<and> heldBy (items' ! k) = Some Right"
    by (simp add: pose_simps)
  then show "heldBy (items' ! k) \<noteq> Some side" by auto
qed

lemma framePage_releases:
  assumes "framePage hs tubes = Some tubes'" and "k < length tubes"
    and "ttHeldBy (tubes ! k) = Some side"
    and "handOf side hs = Some hand" and "\<not> isPinching hand"
  shows "ttHeldBy (tubes' ! k) \<noteq> Some side"
    and "ttHeldBy (tubes' ! k) = None \<or> side = Left \<and> ttHeldBy (tubes' ! k) = Some Right"
proof -
  from framePage_nth(2) [OF assms(1,2)] obtain mid fin c1 c2 where
    l: "tubeTurn Left hs (tubes ! k) = Some (mid, c1)" and
    r: "tubeTurn Right hs mid = Some (fin, c2)" and
    p: "posePage (tubes' ! k) = posePage fin" by blast
  have "ttHeldBy fin = None \<or> side = Left \<and> ttHeldBy fin = Some Right"
  proof (cases side)
    case Left
    with l assms have "mid = releasePage (tubes ! k)" by (simp add: tubeTurn_releases)
    then have "ttHeldBy mid = None" by (simp add: releasePage_fields)
    with tubeTurn_heldBy_cases [OF r] Left show ?thesis by auto
  next
    case Right
    with l assms(3) have "mid = tubes ! k"
      using tubeTurn_other_side [of "tubes ! k" Right Left hs] by simp
    with r assms Right have "fin = releasePage (tubes ! k)" by (simp add: tubeTurn_releases)
    then show ?thesis by (simp add: releasePage_fields)
  qed
  with p show "ttHeldBy (tubes' ! k) = None \<or> side = Left \<and> ttHeldBy (tubes' ! k) = Some Right"
    by (simp add: posePage_simps)
  then show "ttHeldBy (tubes' ! k) \<noteq> Some side" by auto
qed

text \<open>Taking and carrying at frame level.\<close>

lemma itemTurn_grabs:
  assumes "itemTurn s hs t a = Some (b, c)" and "handOf s hs = Some hand" and "canGrab s hand a"
  shows "heldBy b = Some s" "position b = handPos hand"
proof -
  from assms(1,2) have "itemStep s hand t a = Some (b, c)" by (simp add: itemTurn_present)
  then have "heldBy b = Some s \<and> position b = handPos hand"
    using assms(3) by (cases rule: itemStep_cases) (simp_all add: grab_fields)
  then show "heldBy b = Some s" "position b = handPos hand" by simp_all
qed

lemma itemTurn_free_result:
  assumes "itemTurn s hs t a = Some (b, c)" and "heldBy b = None"
  shows "b = a \<or> b = release a \<and> heldBy a = Some s"
proof (cases rule: handOf_cases [of s hs])
  case absent
  with assms show ?thesis by (simp add: itemTurn_absent)
next
  case (present hand)
  from assms(1) present have "itemStep s hand t a = Some (b, c)" by (simp add: itemTurn_present)
  then show ?thesis
    using assms(2) by (cases rule: itemStep_cases) (simp_all add: grab_fields mustRelease_def)
qed

lemma frame_carries:
  assumes "frame hs t items = Some items'" and "k < length items"
    and "handOf Left hs = Some hand" and "canGrab Left hand (items ! k)"
  shows "heldBy (items' ! k) = Some Left" "position (items' ! k) = handPos hand"
proof -
  from frame_nth(2) [OF assms(1,2)] obtain mid fin c1 c2 where
    l: "itemTurn Left hs t (items ! k) = Some (mid, c1)" and
    r: "itemTurn Right hs t mid = Some (fin, c2)" and
    p: "pose (items' ! k) = pose fin" by blast
  have m: "heldBy mid = Some Left" "position mid = handPos hand"
    using itemTurn_grabs [OF l assms(3,4)] by simp_all
  then have "fin = mid" using r itemTurn_other_side [of mid Left Right hs t] by simp
  with m p show "heldBy (items' ! k) = Some Left" "position (items' ! k) = handPos hand"
    by (simp_all add: pose_simps)
qed

lemma frame_takes:
  assumes "frame hs t items = Some items'" and "k < length items"
    and "heldBy (items' ! k) = Some side" and "heldBy (items ! k) \<noteq> Some side"
  shows "\<exists>hand. handOf side hs = Some hand \<and> isPinching hand
           \<and> position (items' ! k) = handPos hand
           \<and> (heldBy (items ! k) = None
                 \<and> distanceTo (handPos hand) (position (items ! k)) < grabDistance (items ! k)
               \<or> side = Right \<and> heldBy (items ! k) = Some Left
                 \<and> distanceTo (handPos hand) (snapBack (items ! k)) < grabDistance (items ! k))"
proof -
  let ?a = "items ! k"
  from frame_nth(2) [OF assms(1,2)] obtain mid fin c1 c2 where
    l: "itemTurn Left hs t ?a = Some (mid, c1)" and
    r: "itemTurn Right hs t mid = Some (fin, c2)" and
    p: "pose (items' ! k) = pose fin" by blast
  from p assms(3) have f: "heldBy fin = Some side" by (simp add: pose_simps)
  show ?thesis
  proof (cases side)
    case Left
    with f itemTurn_heldBy_cases [OF r] have m: "heldBy mid = Some Left" by auto
    then have e: "fin = mid" using r itemTurn_other_side [of mid Left Right hs t] by simp
    from itemTurn_takes [OF l m] assms(4) Left obtain hand where
      "heldBy ?a = None" "handOf Left hs = Some hand" "canGrab Left hand ?a"
      "position mid = handPos hand" by auto
    with e p Left show ?thesis by (auto simp: pose_simps canGrab_def)
  next
    case Right
    have nm: "heldBy mid \<noteq> Some Right"
      using itemTurn_heldBy_cases [OF l] assms(4) Right by auto
    from itemTurn_takes [OF r] f nm Right obtain hand where
      h: "heldBy mid = None" "handOf Right hs = Some hand" "canGrab Right hand mid"
      "position fin = handPos hand" by auto
    from itemTurn_free_result [OF l h(1)] have "mid = ?a \<or> mid = release ?a \<and> heldBy ?a = Some Left"
      by simp
    then show ?thesis
    proof
      assume "mid = ?a"
      with h p Right show ?thesis by (auto simp: pose_simps canGrab_def)
    next
      assume "mid = release ?a \<and> heldBy ?a = Some Left"
      with h p Right show ?thesis
        by (auto simp: pose_simps canGrab_def release_fields grabDistance_def)
    qed
  qed
qed

text \<open>The same on the chemistry page.\<close>

lemma tubeTurn_grabs:
  assumes "tubeTurn s hs a = Some (b, c)" and "handOf s hs = Some hand" and "canGrabPage s hand a"
  shows "ttHeldBy b = Some s" "ttPosition b = handPosPage hand"
proof -
  from assms(1,2) have "tubeStep s hand a = Some (b, c)" by (simp add: tubeTurn_present)
  then have "ttHeldBy b = Some s \<and> ttPosition b = handPosPage hand"
    using assms(3) by (cases rule: tubeStep_cases) (simp_all add: grabPage_fields)
  then show "ttHeldBy b = Some s" "ttPosition b = handPosPage hand" by simp_all
qed

lemma tubeTurn_free_result:
  assumes "tubeTurn s hs a = Some (b, c)" and "ttHeldBy b = None"
  shows "b = a \<or> b = releasePage a \<and> ttHeldBy a = Some s"
proof (cases rule: handOf_cases [of s hs])
  case absent
  with assms show ?thesis by (simp add: tubeTurn_absent)
next
  case (present hand)
  from assms(1) present have "tubeStep s hand a = Some (b, c)" by (simp add: tubeTurn_present)
  then show ?thesis
    using assms(2) by (cases rule: tubeStep_cases) (simp_all add: grabPage_fields mustReleasePage_def)
qed

lemma framePage_takes:
  assumes "framePage hs tubes = Some tubes'" and "k < length tubes"
    and "ttHeldBy (tubes' ! k) = Some side" and "ttHeldBy (tubes ! k) \<noteq> Some side"
  shows "\<exists>hand. handOf side hs = Some hand \<and> isPinching hand
           \<and> ttPosition (tubes' ! k) = handPosPage hand
           \<and> (ttHeldBy (tubes ! k) = None
                 \<and> distanceTo (handPosPage hand) (ttPosition (tubes ! k)) < 1.0
               \<or> side = Right \<and> ttHeldBy (tubes ! k) = Some Left
                 \<and> distanceTo (handPosPage hand) ((ttPosition (tubes ! k))\<lparr>vy := 0\<rparr>) < 1.0)"
proof -
  let ?a = "tubes ! k"
  from framePage_nth(2) [OF assms(1,2)] obtain mid fin c1 c2 where
    l: "tubeTurn Left hs ?a = Some (mid, c1)" and
    r: "tubeTurn Right hs mid = Some (fin, c2)" and
    p: "posePage (tubes' ! k) = posePage fin" by blast
  from p assms(3) have f: "ttHeldBy fin = Some side" by (simp add: posePage_simps)
  show ?thesis
  proof (cases side)
    case Left
    with f tubeTurn_heldBy_cases [OF r] have m: "ttHeldBy mid = Some Left" by auto
    then have e: "fin = mid" using r tubeTurn_other_side [of mid Left Right hs] by simp
    from tubeTurn_takes [OF l m] assms(4) Left obtain hand where
      "ttHeldBy ?a = None" "handOf Left hs = Some hand" "canGrabPage Left hand ?a"
      "ttPosition mid = handPosPage hand" by auto
    with e p Left show ?thesis by (auto simp: posePage_simps canGrabPage_def)
  next
    case Right
    have nm: "ttHeldBy mid \<noteq> Some Right"
      using tubeTurn_heldBy_cases [OF l] assms(4) Right by auto
    from tubeTurn_takes [OF r] f nm Right obtain hand where
      h: "ttHeldBy mid = None" "handOf Right hs = Some hand" "canGrabPage Right hand mid"
      "ttPosition fin = handPosPage hand" by auto
    from tubeTurn_free_result [OF l h(1)]
    have "mid = ?a \<or> mid = releasePage ?a \<and> ttHeldBy ?a = Some Left" by simp
    then show ?thesis
    proof
      assume "mid = ?a"
      with h p Right show ?thesis by (auto simp: posePage_simps canGrabPage_def)
    next
      assume "mid = releasePage ?a \<and> ttHeldBy ?a = Some Left"
      with h p Right show ?thesis
        by (auto simp: posePage_simps canGrabPage_def releasePage_fields)
    qed
  qed
qed

text \<open>The labels of the two slots the tracker fills.\<close>

lemma handLoop_labels:
  assumes "handLoop prev detections l r = Some (l', r')"
    and "\<forall>h. l = Some h \<longrightarrow> handedness h = Left"
    and "\<forall>h. r = Some h \<longrightarrow> handedness h = Right"
  shows "(\<forall>h. l' = Some h \<longrightarrow> handedness h = Left) \<and> (\<forall>h. r' = Some h \<longrightarrow> handedness h = Right)"
  using assms
proof (induction detections arbitrary: l r)
  case Nil
  then show ?case by simp
next
  case (Cons d detections)
  obtain lms c where d: "d = (lms, c)" by (cases d)
  let ?prevHand = "if c = Left then leftHand prev else rightHand prev"
  obtain h where h: "processHand lms c ?prevHand = Some h"
    using Cons.prems(1) d by (cases "processHand lms c ?prevHand") (simp_all add: Let_def)
  have lab: "handedness h = c" by (rule processHand_fields(5) [OF h])
  show ?case
  proof (cases c)
    case Left
    with Cons.prems(1) d h have "handLoop prev detections (Some h) r = Some (l', r')"
      by (simp add: Let_def)
    from Cons.IH [OF this] lab Left Cons.prems(3) show ?thesis by simp
  next
    case Right
    with Cons.prems(1) d h have "handLoop prev detections l (Some h) = Some (l', r')"
      by (simp add: Let_def)
    from Cons.IH [OF this] lab Right Cons.prems(2) show ?thesis by simp
  qed
qed

lemma predict_labels:
  assumes "predict prev detections = Some ts"
  shows "(\<forall>h. leftHand ts = Some h \<longrightarrow> handedness h = Left)
       \<and> (\<forall>h. rightHand ts = Some h \<longrightarrow> handedness h = Right)"
proof -
  obtain l r where lr: "handLoop prev detections None None = Some (l, r)"
    using assms by (cases "handLoop prev detections None None") (auto simp: predict_def)
  with assms have "ts = aggregate l r" by (simp add: predict_def)
  with handLoop_labels [OF lr] show ?thesis by (simp add: aggregate_hands)
qed

section \<open>An object whose hand has left the view\<close>

text \<open>
  Claim C10. In the chemistry interaction step, if the hand recorded in an object's
  \<^verbatim>\<open>heldBy\<close> is absent from the tracking state (that side's slot is null), the
  object's \<^verbatim>\<open>heldBy\<close>, position and rotation are unchanged by the frame; \<^verbatim>\<open>heldBy\<close>
  stops naming a side only in a frame in which that side's hand is detected and not
  pinching; so the object stays marked as held over any number of frames without that
  hand. This holds for the scene with pouring (\<open>frame\<close>, \<open>frames\<close>) and for the scene of
  the chemistry page (\<open>framePage\<close>).
\<close>

theorem held_object_outlives_absent_hand:
  "(frame hs t items = Some items' \<and> k < length items \<and> heldBy (items ! k) = Some side
      \<and> handOf side hs = None
    \<longrightarrow> heldBy (items' ! k) = Some side \<and> position (items' ! k) = position (items ! k)
      \<and> eqRotation (items' ! k) = eqRotation (items ! k))
   \<and> (frame hs t items = Some items' \<and> k < length items \<and> heldBy (items ! k) = Some side
      \<and> heldBy (items' ! k) \<noteq> Some side
    \<longrightarrow> (\<exists>hand. handOf side hs = Some hand \<and> \<not> isPinching hand))
   \<and> (frames ins items = Some items'' \<and> k < length items \<and> heldBy (items ! k) = Some side
      \<and> (\<forall>(hs, t) \<in> set ins. handOf side hs = None)
    \<longrightarrow> heldBy (items'' ! k) = Some side \<and> position (items'' ! k) = position (items ! k)
      \<and> eqRotation (items'' ! k) = eqRotation (items ! k))
   \<and> (framePage hs tubes = Some tubes' \<and> j < length tubes \<and> ttHeldBy (tubes ! j) = Some side
      \<and> handOf side hs = None
    \<longrightarrow> ttHeldBy (tubes' ! j) = Some side \<and> ttPosition (tubes' ! j) = ttPosition (tubes ! j)
      \<and> ttRotation (tubes' ! j) = ttRotation (tubes ! j))
   \<and> (framePage hs tubes = Some tubes' \<and> j < length tubes \<and> ttHeldBy (tubes ! j) = Some side
      \<and> ttHeldBy (tubes' ! j) \<noteq> Some side
    \<longrightarrow> (\<exists>hand. handOf side hs = Some hand \<and> \<not> isPinching hand))"
proof (intro conjI impI)
  assume a: "frame hs t items = Some items' \<and> k < length items \<and> heldBy (items ! k) = Some side
      \<and> handOf side hs = None"
  then have "pose (items' ! k) = pose (items ! k)"
    using frame_hand_absent [of hs t items items' k side] by blast
  with a show "heldBy (items' ! k) = Some side" "position (items' ! k) = position (items ! k)"
    "eqRotation (items' ! k) = eqRotation (items ! k)"
    by (simp_all add: pose_simps)
next
  assume "frame hs t items = Some items' \<and> k < length items \<and> heldBy (items ! k) = Some side
      \<and> heldBy (items' ! k) \<noteq> Some side"
  then show "\<exists>hand. handOf side hs = Some hand \<and> \<not> isPinching hand"
    using frame_keeps_hold [of hs t items items' k side] by blast
next
  assume a: "frames ins items = Some items'' \<and> k < length items \<and> heldBy (items ! k) = Some side
      \<and> (\<forall>(hs, t) \<in> set ins. handOf side hs = None)"
  then have "pose (items'' ! k) = pose (items ! k)"
    using frames_hand_absent [of ins items items'' k side] by blast
  with a show "heldBy (items'' ! k) = Some side" "position (items'' ! k) = position (items ! k)"
    "eqRotation (items'' ! k) = eqRotation (items ! k)"
    by (simp_all add: pose_simps)
next
  assume a: "framePage hs tubes = Some tubes' \<and> j < length tubes \<and> ttHeldBy (tubes ! j) = Some side
      \<and> handOf side hs = None"
  then have "posePage (tubes' ! j) = posePage (tubes ! j)"
    using framePage_hand_absent [of hs tubes tubes' j side] by blast
  with a show "ttHeldBy (tubes' ! j) = Some side" "ttPosition (tubes' ! j) = ttPosition (tubes ! j)"
    "ttRotation (tubes' ! j) = ttRotation (tubes ! j)"
    by (simp_all add: posePage_simps)
next
  assume "framePage hs tubes = Some tubes' \<and> j < length tubes \<and> ttHeldBy (tubes ! j) = Some side
      \<and> ttHeldBy (tubes' ! j) \<noteq> Some side"
  then show "\<exists>hand. handOf side hs = Some hand \<and> \<not> isPinching hand"
    using framePage_keeps_hold [of hs tubes tubes' j side] by blast
qed

theorem held_object_outlives_absent_hand_witness:
  "(\<exists>items'. frame initialState 0 heldScene = Some items'
      \<and> heldBy (items' ! 0) = Some Left \<and> position (items' ! 0) = vector3 (- 4) (- 1) 0)
   \<and> (\<exists>items''. frames [(initialState, 0), (rightOnly (sampleHand Right True 0.5 0.5), 1),
                          (initialState, 2)] heldScene = Some items''
      \<and> heldBy (items'' ! 0) = Some Left \<and> position (items'' ! 0) = vector3 (- 4) (- 1) 0)
   \<and> (\<exists>tubes'. framePage initialState heldTubes = Some tubes'
      \<and> ttHeldBy (tubes' ! 0) = Some Left \<and> ttPosition (tubes' ! 0) = vector3 (- 3) 0 0)"
proof (intro conjI)
  obtain items' where f: "frame initialState 0 heldScene = Some items'"
    using frame_total [of initialState 0 heldScene] by auto
  have "heldBy (items' ! 0) = Some Left \<and> position (items' ! 0) = vector3 (- 4) (- 1) 0"
    using held_object_outlives_absent_hand
      [where hs = initialState and t = 0 and items = heldScene and items' = items' and k = 0
        and side = Left] f
    by simp
  with f show "\<exists>items'. frame initialState 0 heldScene = Some items'
      \<and> heldBy (items' ! 0) = Some Left \<and> position (items' ! 0) = vector3 (- 4) (- 1) 0"
    by blast
next
  let ?ins = "[(initialState, 0), (rightOnly (sampleHand Right True 0.5 0.5), 1), (initialState, 2)]"
  have "\<forall>i \<in> set ?ins. readable (fst i)" by simp
  from frames_total [OF this] obtain items'' where f: "frames ?ins heldScene = Some items''"
    by blast
  have "heldBy (items'' ! 0) = Some Left \<and> position (items'' ! 0) = vector3 (- 4) (- 1) 0"
    using held_object_outlives_absent_hand
      [where ins = ?ins and items = heldScene and items'' = items'' and k = 0 and side = Left] f
    by simp
  with f show "\<exists>items''. frames ?ins heldScene = Some items''
      \<and> heldBy (items'' ! 0) = Some Left \<and> position (items'' ! 0) = vector3 (- 4) (- 1) 0"
    by blast
next
  obtain tubes' where f: "framePage initialState heldTubes = Some tubes'"
    using framePage_total [of initialState heldTubes] by auto
  have "ttHeldBy (tubes' ! 0) = Some Left \<and> ttPosition (tubes' ! 0) = vector3 (- 3) 0 0"
    using held_object_outlives_absent_hand
      [where hs = initialState and tubes = heldTubes and tubes' = tubes' and j = 0
        and side = Left] f
    by simp
  with f show "\<exists>tubes'. framePage initialState heldTubes = Some tubes'
      \<and> ttHeldBy (tubes' ! 0) = Some Left \<and> ttPosition (tubes' ! 0) = vector3 (- 3) 0 0"
    by blast
qed

section \<open>When an object is held\<close>

lemma INITIAL_ITEMS_first [simp]:
  "length (INITIAL_ITEMS hex) = 8" "heldBy (INITIAL_ITEMS hex ! 0) = None"
  "position (INITIAL_ITEMS hex ! 0) = vector3 (- 4) (- 1) 0"
  "eqType (INITIAL_ITEMS hex ! 0) = TEST_TUBE"
  by (simp_all add: INITIAL_ITEMS_def)

lemma handPos_sampleHand [simp]:
  "handPos (sampleHand side p px py) = vector3 ((0.5 - px) * 14) ((0.5 - py) * 10) 0"
  by (simp add: handPos_def vector3_def)

lemma distanceTo_self [simp]: "distanceTo p p = 0"
  by (simp add: distanceTo_def)

text \<open>
  Claim C3, as stated, fails on the code. From the initial scene the left hand pinches at
  the first test tube and takes it; in the next frame no hand is tracked at all, and the
  tube is still held by the left side: \<^verbatim>\<open>heldBy\<close> is set although no hand reports a
  pinch.
\<close>

theorem held_without_a_pinch_counterexample:
  "\<exists>s1 s2. frame (leftOnly (sampleHand Left True (11 / 14) 0.6)) 0 (INITIAL_ITEMS plainHex) = Some s1
     \<and> heldBy (s1 ! 0) = Some Left
     \<and> frame initialState 1 s1 = Some s2
     \<and> heldBy (s2 ! 0) = Some Left
     \<and> handOf Left initialState = None \<and> handOf Right initialState = None"
proof -
  let ?hand = "sampleHand Left True (11 / 14) 0.6"
  obtain s1 where f1: "frame (leftOnly ?hand) 0 (INITIAL_ITEMS plainHex) = Some s1"
    using frame_total [of "leftOnly ?hand" 0 "INITIAL_ITEMS plainHex"] by auto
  have g: "canGrab Left ?hand (INITIAL_ITEMS plainHex ! 0)"
    by (simp add: canGrab_def grabDistance_def)
  have h1: "heldBy (s1 ! 0) = Some Left"
    by (rule frame_carries(1) [OF f1 _ _ g]) simp_all
  have len: "length s1 = 8" using frame_nth(1) [OF f1, of 0] by simp
  obtain s2 where f2: "frame initialState 1 s1 = Some s2"
    using frame_total [of initialState 1 s1] by auto
  have "pose (s2 ! 0) = pose (s1 ! 0)"
    by (rule frame_hand_absent [OF f2 _ h1]) (simp_all add: len)
  with h1 have "heldBy (s2 ! 0) = Some Left" by (simp add: pose_simps)
  with f1 h1 f2 show ?thesis by auto
qed

text \<open>
  Claim C3, amended. The tracking state holds at most one hand per side: the hand in the
  left slot is labelled Left and the hand in the right slot is labelled Right. An object's
  \<^verbatim>\<open>heldBy\<close> becomes a side in a frame only if that side's hand is present and pinching
  within the object's capture radius (measured at that side's turn: for the right hand
  after a release by the left hand in the same frame, from the snapped-back position), and
  the object then sits at the hand. In a frame in which the holding side's hand is present
  and not pinching, the object is no longer held by that side, whatever the other hand does
  (after a release by the left hand the right hand may take it in the same frame). While
  the holding side's hand is absent or still pinching, in range or not, \<^verbatim>\<open>heldBy\<close> stays.
  The same holds on the chemistry page.
\<close>

theorem hold_follows_the_pinch:
  "(predict prev detections = Some ts
    \<longrightarrow> (\<forall>h. leftHand ts = Some h \<longrightarrow> handedness h = Left)
      \<and> (\<forall>h. rightHand ts = Some h \<longrightarrow> handedness h = Right))
   \<and> (frame hs t items = Some items' \<and> k < length items
      \<and> heldBy (items' ! k) = Some side \<and> heldBy (items ! k) \<noteq> Some side
    \<longrightarrow> (\<exists>hand. handOf side hs = Some hand \<and> isPinching hand
           \<and> position (items' ! k) = handPos hand
           \<and> (heldBy (items ! k) = None
                 \<and> distanceTo (handPos hand) (position (items ! k)) < grabDistance (items ! k)
               \<or> side = Right \<and> heldBy (items ! k) = Some Left
                 \<and> distanceTo (handPos hand) (snapBack (items ! k)) < grabDistance (items ! k))))
   \<and> (frame hs t items = Some items' \<and> k < length items \<and> heldBy (items ! k) = Some side
      \<and> handOf side hs = Some hand \<and> \<not> isPinching hand
    \<longrightarrow> heldBy (items' ! k) \<noteq> Some side
      \<and> (heldBy (items' ! k) = None \<or> side = Left \<and> heldBy (items' ! k) = Some Right))
   \<and> (frame hs t items = Some items' \<and> k < length items \<and> heldBy (items ! k) = Some side
      \<and> \<not> (\<exists>hand. handOf side hs = Some hand \<and> \<not> isPinching hand)
    \<longrightarrow> heldBy (items' ! k) = Some side)
   \<and> (framePage hs tubes = Some tubes' \<and> j < length tubes
      \<and> ttHeldBy (tubes' ! j) = Some side \<and> ttHeldBy (tubes ! j) \<noteq> Some side
    \<longrightarrow> (\<exists>hand. handOf side hs = Some hand \<and> isPinching hand
           \<and> ttPosition (tubes' ! j) = handPosPage hand
           \<and> (ttHeldBy (tubes ! j) = None
                 \<and> distanceTo (handPosPage hand) (ttPosition (tubes ! j)) < 1.0
               \<or> side = Right \<and> ttHeldBy (tubes ! j) = Some Left
                 \<and> distanceTo (handPosPage hand) ((ttPosition (tubes ! j))\<lparr>vy := 0\<rparr>) < 1.0)))
   \<and> (framePage hs tubes = Some tubes' \<and> j < length tubes \<and> ttHeldBy (tubes ! j) = Some side
      \<and> handOf side hs = Some hand \<and> \<not> isPinching hand
    \<longrightarrow> ttHeldBy (tubes' ! j) \<noteq> Some side
      \<and> (ttHeldBy (tubes' ! j) = None \<or> side = Left \<and> ttHeldBy (tubes' ! j) = Some Right))
   \<and> (framePage hs tubes = Some tubes' \<and> j < length tubes \<and> ttHeldBy (tubes ! j) = Some side
      \<and> \<not> (\<exists>hand. handOf side hs = Some hand \<and> \<not> isPinching hand)
    \<longrightarrow> ttHeldBy (tubes' ! j) = Some side)"
proof (intro conjI impI)
  assume "predict prev detections = Some ts"
  then show "\<forall>h. leftHand ts = Some h \<longrightarrow> handedness h = Left"
    "\<forall>h. rightHand ts = Some h \<longrightarrow> handedness h = Right"
    using predict_labels by blast+
next
  assume "frame hs t items = Some items' \<and> k < length items
      \<and> heldBy (items' ! k) = Some side \<and> heldBy (items ! k) \<noteq> Some side"
  then show "\<exists>hand. handOf side hs = Some hand \<and> isPinching hand
           \<and> position (items' ! k) = handPos hand
           \<and> (heldBy (items ! k) = None
                 \<and> distanceTo (handPos hand) (position (items ! k)) < grabDistance (items ! k)
               \<or> side = Right \<and> heldBy (items ! k) = Some Left
                 \<and> distanceTo (handPos hand) (snapBack (items ! k)) < grabDistance (items ! k))"
    using frame_takes [of hs t items items' k side] by blast
next
  assume a: "frame hs t items = Some items' \<and> k < length items \<and> heldBy (items ! k) = Some side
      \<and> handOf side hs = Some hand \<and> \<not> isPinching hand"
  then show "heldBy (items' ! k) \<noteq> Some side"
    using frame_releases(1) [of hs t items items' k side hand] by blast
  from a show "heldBy (items' ! k) = None \<or> side = Left \<and> heldBy (items' ! k) = Some Right"
    using frame_releases(2) [of hs t items items' k side hand] by blast
next
  assume "frame hs t items = Some items' \<and> k < length items \<and> heldBy (items ! k) = Some side
      \<and> \<not> (\<exists>hand. handOf side hs = Some hand \<and> \<not> isPinching hand)"
  then show "heldBy (items' ! k) = Some side"
    using frame_keeps_hold [of hs t items items' k side] by blast
next
  assume "framePage hs tubes = Some tubes' \<and> j < length tubes
      \<and> ttHeldBy (tubes' ! j) = Some side \<and> ttHeldBy (tubes ! j) \<noteq> Some side"
  then show "\<exists>hand. handOf side hs = Some hand \<and> isPinching hand
           \<and> ttPosition (tubes' ! j) = handPosPage hand
           \<and> (ttHeldBy (tubes ! j) = None
                 \<and> distanceTo (handPosPage hand) (ttPosition (tubes ! j)) < 1.0
               \<or> side = Right \<and> ttHeldBy (tubes ! j) = Some Left
                 \<and> distanceTo (handPosPage hand) ((ttPosition (tubes ! j))\<lparr>vy := 0\<rparr>) < 1.0)"
    using framePage_takes [of hs tubes tubes' j side] by blast
next
  assume a: "framePage hs tubes = Some tubes' \<and> j < length tubes \<and> ttHeldBy (tubes ! j) = Some side
      \<and> handOf side hs = Some hand \<and> \<not> isPinching hand"
  then show "ttHeldBy (tubes' ! j) \<noteq> Some side"
    using framePage_releases(1) [of hs tubes tubes' j side hand] by blast
  from a show "ttHeldBy (tubes' ! j) = None \<or> side = Left \<and> ttHeldBy (tubes' ! j) = Some Right"
    using framePage_releases(2) [of hs tubes tubes' j side hand] by blast
next
  assume "framePage hs tubes = Some tubes' \<and> j < length tubes \<and> ttHeldBy (tubes ! j) = Some side
      \<and> \<not> (\<exists>hand. handOf side hs = Some hand \<and> \<not> isPinching hand)"
  then show "ttHeldBy (tubes' ! j) = Some side"
    using framePage_keeps_hold [of hs tubes tubes' j side] by blast
qed

theorem hold_follows_the_pinch_witness:
  "(\<exists>ts l. predict initialState [(fourFingerHand 0, Left), (fourFingerHand 0.3, Right)] = Some ts
      \<and> leftHand ts = Some l \<and> handedness l = Left)
   \<and> (\<exists>s1. frame (leftOnly (sampleHand Left True (11 / 14) 0.6)) 0 (INITIAL_ITEMS plainHex) = Some s1
      \<and> heldBy (s1 ! 0) = Some Left \<and> position (s1 ! 0) = vector3 (- 4) (- 1) 0)
   \<and> (\<exists>s. frame (leftOnly (sampleHand Left False 0.5 0.5)) 0 heldScene = Some s
      \<and> heldBy (s ! 0) = None)
   \<and> (\<exists>s. framePage (leftOnly (sampleHand Left False 0.5 0.5)) heldTubes = Some s
      \<and> ttHeldBy (s ! 0) = None)"
proof (intro conjI)
  obtain l where l: "processHand (fourFingerHand 0) Left None = Some l"
    using processHand_total [of "fourFingerHand 0" Left None] by (auto simp: nth_fourFingerHand)
  obtain r where r: "processHand (fourFingerHand 0.3) Right None = Some r"
    using processHand_total [of "fourFingerHand 0.3" Right None] by (auto simp: nth_fourFingerHand)
  define ts where "ts = aggregate (Some l) (Some r)"
  have run: "predict initialState [(fourFingerHand 0, Left), (fourFingerHand 0.3, Right)] = Some ts"
    by (simp add: predict_def initialState_def l r ts_def)
  have left: "leftHand ts = Some l" by (simp add: ts_def aggregate_hands)
  have "handedness l = Left"
    using hold_follows_the_pinch [where prev = initialState and ts = ts
        and detections = "[(fourFingerHand 0, Left), (fourFingerHand 0.3, Right)]"] run left
    by blast
  with run left
  show "\<exists>ts l. predict initialState [(fourFingerHand 0, Left), (fourFingerHand 0.3, Right)] = Some ts
      \<and> leftHand ts = Some l \<and> handedness l = Left"
    by blast
next
  let ?hand = "sampleHand Left True (11 / 14) 0.6"
  obtain s1 where f1: "frame (leftOnly ?hand) 0 (INITIAL_ITEMS plainHex) = Some s1"
    using frame_total [of "leftOnly ?hand" 0 "INITIAL_ITEMS plainHex"] by auto
  have g: "canGrab Left ?hand (INITIAL_ITEMS plainHex ! 0)"
    by (simp add: canGrab_def grabDistance_def)
  have h1: "heldBy (s1 ! 0) = Some Left"
    by (rule frame_carries(1) [OF f1 _ _ g]) simp_all
  have "\<exists>hand. handOf Left (leftOnly ?hand) = Some hand \<and> position (s1 ! 0) = handPos hand"
    using hold_follows_the_pinch [where hs = "leftOnly ?hand" and t = 0
        and items = "INITIAL_ITEMS plainHex" and items' = s1 and k = 0 and side = Left] f1 h1
    by auto
  then have "position (s1 ! 0) = vector3 (- 4) (- 1) 0" by auto
  with f1 h1
  show "\<exists>s1. frame (leftOnly ?hand) 0 (INITIAL_ITEMS plainHex) = Some s1
      \<and> heldBy (s1 ! 0) = Some Left \<and> position (s1 ! 0) = vector3 (- 4) (- 1) 0"
    by blast
next
  let ?hs = "leftOnly (sampleHand Left False 0.5 0.5)"
  obtain s where f: "frame ?hs 0 heldScene = Some s"
    using frame_total [of ?hs 0 heldScene] by auto
  note inst = hold_follows_the_pinch [where hs = ?hs and t = 0 and items = heldScene
      and items' = s and k = 0]
  have "heldBy (s ! 0) = None \<or> heldBy (s ! 0) = Some Right"
    using inst [where side = Left and hand = "sampleHand Left False 0.5 0.5"] f by simp
  moreover have "heldBy (s ! 0) \<noteq> Some Right"
    using inst [where side = Right] f by auto
  ultimately have "heldBy (s ! 0) = None" by blast
  with f show "\<exists>s. frame ?hs 0 heldScene = Some s \<and> heldBy (s ! 0) = None" by blast
next
  let ?hs = "leftOnly (sampleHand Left False 0.5 0.5)"
  obtain s where f: "framePage ?hs heldTubes = Some s"
    using framePage_total [of ?hs heldTubes] by auto
  note inst = hold_follows_the_pinch [where hs = ?hs and tubes = heldTubes
      and tubes' = s and j = 0]
  have "ttHeldBy (s ! 0) = None \<or> ttHeldBy (s ! 0) = Some Right"
    using inst [where side = Left and hand = "sampleHand Left False 0.5 0.5"] f by simp
  moreover have "ttHeldBy (s ! 0) \<noteq> Some Right"
    using inst [where side = Right] f by auto
  ultimately have "ttHeldBy (s ! 0) = None" by blast
  with f show "\<exists>s. framePage ?hs heldTubes = Some s \<and> ttHeldBy (s ! 0) = None" by blast
qed

section \<open>The hold state machine and the snap back\<close>

text \<open>The snap back.\<close>

lemma foldl_nearest:
  fixes x :: real
  defines "f \<equiv> (\<lambda>prev curr. if \<bar>curr - x\<bar> < \<bar>prev - x\<bar> then curr else prev)"
  shows "foldl f p xs \<in> set (p # xs) \<and> (\<forall>y \<in> set (p # xs). \<bar>foldl f p xs - x\<bar> \<le> \<bar>y - x\<bar>)"
proof (induction xs arbitrary: p)
  case Nil
  show ?case by simp
next
  case (Cons a xs)
  have ih: "foldl f (f p a) xs \<in> set (f p a # xs)"
    "\<forall>y \<in> set (f p a # xs). \<bar>foldl f (f p a) xs - x\<bar> \<le> \<bar>y - x\<bar>"
    using Cons.IH [of "f p a"] by simp_all
  have fp: "f p a \<in> {p, a}" "\<bar>f p a - x\<bar> \<le> \<bar>p - x\<bar>" "\<bar>f p a - x\<bar> \<le> \<bar>a - x\<bar>"
    by (simp_all add: f_def)
  have "foldl f (f p a) xs \<in> set (p # a # xs)" using ih(1) fp(1) by auto
  moreover have "\<bar>foldl f (f p a) xs - x\<bar> \<le> \<bar>f p a - x\<bar>" using ih(2) by simp
  then have "\<bar>foldl f (f p a) xs - x\<bar> \<le> \<bar>p - x\<bar>" "\<bar>foldl f (f p a) xs - x\<bar> \<le> \<bar>a - x\<bar>"
    using fp(2,3) by linarith+
  moreover have "\<forall>y \<in> set xs. \<bar>foldl f (f p a) xs - x\<bar> \<le> \<bar>y - x\<bar>" using ih(2) by simp
  ultimately show ?case by simp
qed

lemma nearestPos_nearest:
  "nearestPos x \<in> set rackPositions"
  "\<forall>r \<in> set rackPositions. \<bar>nearestPos x - x\<bar> \<le> \<bar>r - x\<bar>"
proof -
  have e: "hd rackPositions # tl rackPositions = rackPositions"
    by (simp add: rackPositions_def)
  from foldl_nearest [of x "hd rackPositions" "tl rackPositions"]
  show "nearestPos x \<in> set rackPositions"
    "\<forall>r \<in> set rackPositions. \<bar>nearestPos x - x\<bar> \<le> \<bar>r - x\<bar>"
    unfolding e nearestPos_def by blast+
qed

lemma snapBack_fields:
  "vy (snapBack a) = min (vy (position a)) (- 1.5)"
  "vz (snapBack a) = vz (position a)"
  "vx (snapBack a) = (if eqType a = TEST_TUBE \<and> - 1.5 < vy (position a)
                      then lerp (vx (position a)) (nearestPos (vx (position a))) 0.5
                      else vx (position a))"
  by (simp_all add: snapBack_def Let_def)

lemma itemStep_releases:
  assumes "heldBy a = Some side" and "\<not> isPinching hand"
  shows "itemStep side hand t a = Some (release a, True)"
  using assms by (simp add: itemStep_def canGrab_def mustRelease_def)

lemma itemStep_open_hand_free:
  assumes "heldBy a = None" and "\<not> isPinching hand"
  shows "itemStep side hand t a = Some (a, False)"
  using assms by (simp add: itemStep_def canGrab_def mustRelease_def)

lemma itemStep_heldBy_cases:
  assumes "itemStep s hand t a = Some (b, c)"
  shows "heldBy b = heldBy a \<or> heldBy a = None \<and> heldBy b = Some s
         \<or> heldBy a = Some s \<and> heldBy b = None"
  using assms
proof (cases rule: itemStep_cases)
  case grabbed
  then show ?thesis by (auto simp: grab_fields canGrab_def)
next
  case released
  then show ?thesis by (simp add: release_fields mustRelease_def)
next
  case idle
  then show ?thesis by simp
qed

lemma tubeStep_releases:
  assumes "ttHeldBy a = Some side" and "\<not> isPinching hand"
  shows "tubeStep side hand a = Some (releasePage a, True)"
  using assms by (simp add: tubeStep_def canGrabPage_def mustReleasePage_def)

lemma tubeStep_open_hand_free:
  assumes "ttHeldBy a = None" and "\<not> isPinching hand"
  shows "tubeStep side hand a = Some (a, False)"
  using assms by (simp add: tubeStep_def canGrabPage_def mustReleasePage_def)

lemma tubeStep_heldBy_cases:
  assumes "tubeStep s hand a = Some (b, c)"
  shows "ttHeldBy b = ttHeldBy a \<or> ttHeldBy a = None \<and> ttHeldBy b = Some s
         \<or> ttHeldBy a = Some s \<and> ttHeldBy b = None"
  using assms
proof (cases rule: tubeStep_cases)
  case grabbed
  then show ?thesis by (auto simp: grabPage_fields canGrabPage_def)
next
  case released
  then show ?thesis by (simp add: releasePage_fields mustReleasePage_def)
next
  case idle
  then show ?thesis by simp
qed

text \<open>A release by the left hand while no right hand is tracked.\<close>

lemma frame_releases_alone:
  assumes "frame hs t items = Some items'" and "k < length items"
    and "heldBy (items ! k) = Some Left"
    and "handOf Left hs = Some hand" and "\<not> isPinching hand" and "handOf Right hs = None"
  shows "pose (items' ! k) = pose (release (items ! k))"
proof -
  from frame_nth(2) [OF assms(1,2)] obtain mid fin c1 c2 where
    l: "itemTurn Left hs t (items ! k) = Some (mid, c1)" and
    r: "itemTurn Right hs t mid = Some (fin, c2)" and
    p: "pose (items' ! k) = pose fin" by blast
  from l assms have "mid = release (items ! k)" by (simp add: itemTurn_releases)
  moreover from r assms(6) have "fin = mid" by (simp add: itemTurn_absent)
  ultimately show ?thesis using p by simp
qed

lemma distanceTo_less:
  assumes "0 \<le> c"
  shows "distanceTo a b < c \<longleftrightarrow>
     (vx a - vx b) * (vx a - vx b) + (vy a - vy b) * (vy a - vy b)
       + (vz a - vz b) * (vz a - vz b) < c * c"
  unfolding distanceTo_def by (rule sqrt_lt_iff [OF assms])

lemma canGrabI:
  assumes "isPinching hand" and "heldBy a = None \<or> heldBy a = Some side"
    and "(vx (handPos hand) - vx (position a)) * (vx (handPos hand) - vx (position a))
       + (vy (handPos hand) - vy (position a)) * (vy (handPos hand) - vy (position a))
       + (vz (handPos hand) - vz (position a)) * (vz (handPos hand) - vz (position a))
       < grabDistance a * grabDistance a"
  shows "canGrab side hand a"
proof -
  have "0 \<le> grabDistance a" by (simp add: grabDistance_def)
  from distanceTo_less [OF this, of "handPos hand" "position a"] assms
  show ?thesis by (simp add: canGrab_def)
qed

text \<open>
  Claim C8, as stated, fails on the code in its description of the snap back. From the
  initial scene the left hand takes the first test tube a little to the right of its slot,
  lowers it to height -1.6 and opens. The release leaves the tube where it is: it is not
  put at the rack level -1.5 and not moved toward the nearest slot, which is the one at
  -4 (a pull would have ended at -3.85).
\<close>

theorem release_without_pull_counterexample:
  "\<exists>s. frames [(leftOnly (sampleHand Left True (107 / 140) 0.6), 0),
               (leftOnly (sampleHand Left True (107 / 140) 0.66), 1),
               (leftOnly (sampleHand Left False (107 / 140) 0.66), 2)]
          (INITIAL_ITEMS plainHex) = Some s
     \<and> heldBy (s ! 0) = None
     \<and> position (s ! 0) = vector3 (- 3.7) (- 1.6) 0
     \<and> eqType (INITIAL_ITEMS plainHex ! 0) = TEST_TUBE
     \<and> nearestPos (- 3.7) = - 4
     \<and> lerp (- 3.7) (nearestPos (- 3.7)) 0.5 = - 3.85"
proof -
  let ?h1 = "sampleHand Left True (107 / 140) 0.6"
  let ?h2 = "sampleHand Left True (107 / 140) 0.66"
  let ?h3 = "sampleHand Left False (107 / 140) 0.66"
  let ?s0 = "INITIAL_ITEMS plainHex"
  obtain s1 where f1: "frame (leftOnly ?h1) 0 ?s0 = Some s1"
    using frame_total [of "leftOnly ?h1" 0 ?s0] by auto
  have g1: "canGrab Left ?h1 (?s0 ! 0)"
    by (rule canGrabI) (simp_all add: grabDistance_def vector3_def)
  have p1: "heldBy (s1 ! 0) = Some Left" "position (s1 ! 0) = handPos ?h1"
    using frame_carries [OF f1 _ _ g1] by simp_all
  have t1: "eqType (s1 ! 0) = TEST_TUBE" and l1: "length s1 = 8"
  proof -
    from frame_nth [OF f1, of 0] obtain mid fin c1 c2 where
      "itemTurn Left (leftOnly ?h1) 0 (?s0 ! 0) = Some (mid, c1)"
      "itemTurn Right (leftOnly ?h1) 0 mid = Some (fin, c2)" "pose (s1 ! 0) = pose fin"
      and len: "length s1 = length ?s0"
      by auto
    then show "eqType (s1 ! 0) = TEST_TUBE"
      using itemTurn_kept(2) [of Left "leftOnly ?h1" 0 "?s0 ! 0" mid c1]
        itemTurn_kept(2) [of Right "leftOnly ?h1" 0 mid fin c2]
      by (simp add: pose_simps)
    from len show "length s1 = 8" by simp
  qed
  obtain s2 where f2: "frame (leftOnly ?h2) 1 s1 = Some s2"
    using frame_total [of "leftOnly ?h2" 1 s1] by auto
  have g2: "canGrab Left ?h2 (s1 ! 0)"
    by (rule canGrabI) (simp_all add: p1 t1 grabDistance_def vector3_def)
  have p2: "heldBy (s2 ! 0) = Some Left" "position (s2 ! 0) = handPos ?h2"
    using frame_carries [OF f2 _ _ g2] l1 by simp_all
  have t2: "eqType (s2 ! 0) = TEST_TUBE" and l2: "length s2 = 8"
  proof -
    from frame_nth [OF f2, of 0] l1 obtain mid fin c1 c2 where
      "itemTurn Left (leftOnly ?h2) 1 (s1 ! 0) = Some (mid, c1)"
      "itemTurn Right (leftOnly ?h2) 1 mid = Some (fin, c2)" "pose (s2 ! 0) = pose fin"
      and len: "length s2 = length s1"
      by auto
    then show "eqType (s2 ! 0) = TEST_TUBE"
      using itemTurn_kept(2) [of Left "leftOnly ?h2" 1 "s1 ! 0" mid c1]
        itemTurn_kept(2) [of Right "leftOnly ?h2" 1 mid fin c2] t1
      by (simp add: pose_simps)
    from len l1 show "length s2 = 8" by simp
  qed
  obtain s3 where f3: "frame (leftOnly ?h3) 2 s2 = Some s3"
    using frame_total [of "leftOnly ?h3" 2 s2] by auto
  have "pose (s3 ! 0) = pose (release (s2 ! 0))"
    using frame_releases_alone [OF f3 _ p2(1), where hand = ?h3] by (simp add: l2)
  moreover have "snapBack (s2 ! 0) = vector3 (- 3.7) (- 1.6) 0"
    using p2(2) t2 by (simp add: snapBack_def vector3_def)
  ultimately have r: "heldBy (s3 ! 0) = None" "position (s3 ! 0) = vector3 (- 3.7) (- 1.6) 0"
    by (simp_all add: pose_simps release_fields)
  have run: "frames [(leftOnly ?h1, 0), (leftOnly ?h2, 1), (leftOnly ?h3, 2)] ?s0 = Some s3"
    using f1 f2 f3 by simp
  have n: "nearestPos (- 3.7) = - 4"
    by (simp add: nearestPos_def rackPositions_def)
  then have "lerp (- 3.7) (nearestPos (- 3.7)) 0.5 = - 3.85"
    by (simp add: lerp_def)
  with run r n show ?thesis by simp
qed

text \<open>
  Claim C8, amended. Per object the hold state goes Free, Held(S), Free. While the side
  S that holds an object keeps pinching, the object stays held by S at the end of the
  frame; a turn of the other side leaves an object held by S untouched. One turn changes
  \<^verbatim>\<open>heldBy\<close> only from free to the side whose turn it is, or from that side to free.
  When the holding side's hand does not pinch, its turn releases the object: \<^verbatim>\<open>heldBy\<close>
  is cleared, the rotation is reset to (0, 0, 0), and one snap back is applied, after
  which a further turn of a hand that does not pinch changes nothing. The snap back of
  the pouring scene lowers an object above height -1.5 to that height and leaves lower
  objects where they are; only a test tube that was lowered also moves half way to the
  nearest rack slot in x; a flask keeps its horizontal position. On the chemistry page the
  released tube's height is set to 0 and nothing else moves.
\<close>

theorem grab_release_state_machine:
  "(frame hs t items = Some items' \<and> k < length items \<and> heldBy (items ! k) = Some side
      \<and> handOf side hs = Some hand \<and> isPinching hand
    \<longrightarrow> heldBy (items' ! k) = Some side)
   \<and> (heldBy a = Some side \<and> other \<noteq> side \<longrightarrow> itemStep other hand t a = Some (a, False))
   \<and> (itemStep side hand t a = Some (b, c)
    \<longrightarrow> heldBy b = heldBy a \<or> heldBy a = None \<and> heldBy b = Some side
      \<or> heldBy a = Some side \<and> heldBy b = None)
   \<and> (heldBy a = Some side \<and> \<not> isPinching hand
    \<longrightarrow> itemStep side hand t a = Some (release a, True)
      \<and> heldBy (release a) = None \<and> eqRotation (release a) = euler 0 0 0
      \<and> vy (position (release a)) = min (vy (position a)) (- 1.5)
      \<and> vz (position (release a)) = vz (position a)
      \<and> vx (position (release a))
          = (if eqType a = TEST_TUBE \<and> - 1.5 < vy (position a)
             then lerp (vx (position a)) (nearestPos (vx (position a))) 0.5
             else vx (position a)))
   \<and> nearestPos x \<in> set rackPositions
   \<and> (\<forall>r \<in> set rackPositions. \<bar>nearestPos x - x\<bar> \<le> \<bar>r - x\<bar>)
   \<and> (\<not> isPinching hand \<longrightarrow> itemStep other hand t (release a) = Some (release a, False))
   \<and> (framePage hs tubes = Some tubes' \<and> j < length tubes \<and> ttHeldBy (tubes ! j) = Some side
      \<and> handOf side hs = Some hand \<and> isPinching hand
    \<longrightarrow> ttHeldBy (tubes' ! j) = Some side)
   \<and> (ttHeldBy u = Some side \<and> other \<noteq> side \<longrightarrow> tubeStep other hand u = Some (u, False))
   \<and> (tubeStep side hand u = Some (v, c)
    \<longrightarrow> ttHeldBy v = ttHeldBy u \<or> ttHeldBy u = None \<and> ttHeldBy v = Some side
      \<or> ttHeldBy u = Some side \<and> ttHeldBy v = None)
   \<and> (ttHeldBy u = Some side \<and> \<not> isPinching hand
    \<longrightarrow> tubeStep side hand u = Some (releasePage u, True)
      \<and> ttHeldBy (releasePage u) = None \<and> ttRotation (releasePage u) = euler 0 0 0
      \<and> ttPosition (releasePage u) = (ttPosition u)\<lparr>vy := 0\<rparr>)
   \<and> (\<not> isPinching hand
    \<longrightarrow> tubeStep other hand (releasePage u) = Some (releasePage u, False))"
proof (intro conjI impI ballI)
  assume "frame hs t items = Some items' \<and> k < length items \<and> heldBy (items ! k) = Some side
      \<and> handOf side hs = Some hand \<and> isPinching hand"
  then show "heldBy (items' ! k) = Some side"
    using frame_keeps_hold [of hs t items items' k side] by auto
next
  assume "heldBy a = Some side \<and> other \<noteq> side"
  then show "itemStep other hand t a = Some (a, False)"
    using itemStep_other_side [of a side other hand t] by simp
next
  assume "itemStep side hand t a = Some (b, c)"
  then show "heldBy b = heldBy a \<or> heldBy a = None \<and> heldBy b = Some side
      \<or> heldBy a = Some side \<and> heldBy b = None"
    by (rule itemStep_heldBy_cases)
next
  assume a: "heldBy a = Some side \<and> \<not> isPinching hand"
  then show "itemStep side hand t a = Some (release a, True)"
    by (simp add: itemStep_releases)
  show "heldBy (release a) = None" "eqRotation (release a) = euler 0 0 0"
    by (simp_all add: release_fields)
  show "vy (position (release a)) = min (vy (position a)) (- 1.5)"
    "vz (position (release a)) = vz (position a)"
    "vx (position (release a))
          = (if eqType a = TEST_TUBE \<and> - 1.5 < vy (position a)
             then lerp (vx (position a)) (nearestPos (vx (position a))) 0.5
             else vx (position a))"
    by (simp_all only: release_fields snapBack_fields)
next
  show "nearestPos x \<in> set rackPositions" by (rule nearestPos_nearest)
next
  fix r assume "r \<in> set rackPositions"
  then show "\<bar>nearestPos x - x\<bar> \<le> \<bar>r - x\<bar>" using nearestPos_nearest(2) by blast
next
  assume "\<not> isPinching hand"
  then show "itemStep other hand t (release a) = Some (release a, False)"
    by (simp add: itemStep_open_hand_free release_fields)
next
  assume "framePage hs tubes = Some tubes' \<and> j < length tubes \<and> ttHeldBy (tubes ! j) = Some side
      \<and> handOf side hs = Some hand \<and> isPinching hand"
  then show "ttHeldBy (tubes' ! j) = Some side"
    using framePage_keeps_hold [of hs tubes tubes' j side] by auto
next
  assume "ttHeldBy u = Some side \<and> other \<noteq> side"
  then show "tubeStep other hand u = Some (u, False)"
    using tubeStep_other_side [of u side other hand] by simp
next
  assume "tubeStep side hand u = Some (v, c)"
  then show "ttHeldBy v = ttHeldBy u \<or> ttHeldBy u = None \<and> ttHeldBy v = Some side
      \<or> ttHeldBy u = Some side \<and> ttHeldBy v = None"
    by (rule tubeStep_heldBy_cases)
next
  assume a: "ttHeldBy u = Some side \<and> \<not> isPinching hand"
  then show "tubeStep side hand u = Some (releasePage u, True)"
    by (simp add: tubeStep_releases)
  show "ttHeldBy (releasePage u) = None" "ttRotation (releasePage u) = euler 0 0 0"
    "ttPosition (releasePage u) = (ttPosition u)\<lparr>vy := 0\<rparr>"
    by (simp_all add: releasePage_fields)
next
  assume "\<not> isPinching hand"
  then show "tubeStep other hand (releasePage u) = Some (releasePage u, False)"
    by (simp add: tubeStep_open_hand_free releasePage_fields)
qed

theorem grab_release_state_machine_witness:
  "(\<exists>s. frame (leftOnly (sampleHand Left True 0.1 0.1)) 0 heldScene = Some s
      \<and> heldBy (s ! 0) = Some Left)
   \<and> itemStep Right (sampleHand Right True (11 / 14) 0.6) 0 (heldScene ! 0)
       = Some (heldScene ! 0, False)
   \<and> itemStep Left (sampleHand Left False 0.5 0.5) 0 (heldScene ! 0)
       = Some (release (heldScene ! 0), True)
   \<and> position (release (heldScene ! 0)) = vector3 (- 4) (- 1.5) 0
   \<and> eqRotation (release (heldScene ! 0)) = euler 0 0 0
   \<and> heldBy (release (heldScene ! 0)) = None
   \<and> tubeStep Left (sampleHand Left False 0.5 0.5) (heldTubes ! 0)
       = Some (releasePage (heldTubes ! 0), True)
   \<and> ttPosition (releasePage (heldTubes ! 0)) = vector3 (- 3) 0 0"
proof -
  let ?open = "sampleHand Left False 0.5 0.5"
  let ?far = "sampleHand Left True 0.1 0.1"
  let ?a = "heldScene ! 0"
  let ?u = "heldTubes ! 0"
  note inst = grab_release_state_machine [where a = ?a and u = ?u and side = Left and t = 0]
  obtain s where f: "frame (leftOnly ?far) 0 heldScene = Some s"
    using frame_total [of "leftOnly ?far" 0 heldScene] by auto
  have "heldBy (s ! 0) = Some Left"
    using inst [where hs = "leftOnly ?far" and items = heldScene and items' = s and k = 0
        and hand = ?far] f
    by simp
  with f have 1: "\<exists>s. frame (leftOnly ?far) 0 heldScene = Some s \<and> heldBy (s ! 0) = Some Left"
    by blast
  have 2: "itemStep Right (sampleHand Right True (11 / 14) 0.6) 0 ?a = Some (?a, False)"
    using inst [where other = Right and hand = "sampleHand Right True (11 / 14) 0.6"] by simp
  have 3: "itemStep Left ?open 0 ?a = Some (release ?a, True) \<and> heldBy (release ?a) = None
      \<and> eqRotation (release ?a) = euler 0 0 0
      \<and> vy (position (release ?a)) = min (vy (position ?a)) (- 1.5)
      \<and> vz (position (release ?a)) = vz (position ?a)
      \<and> vx (position (release ?a)) = lerp (vx (position ?a)) (nearestPos (vx (position ?a))) 0.5"
    using inst [where hand = ?open] by (simp add: vector3_def)
  have n: "nearestPos (- 4) = - 4" by (simp add: nearestPos_def rackPositions_def)
  have "position (release ?a) = vector3 (- 4) (- 1.5) 0"
    using 3 n by (intro Vector3.equality) (simp_all add: vector3_def lerp_def)
  moreover have "tubeStep Left ?open ?u = Some (releasePage ?u, True)
      \<and> ttPosition (releasePage ?u) = (ttPosition ?u)\<lparr>vy := 0\<rparr>"
    using inst [where hand = ?open] by simp
  then have "tubeStep Left ?open ?u = Some (releasePage ?u, True)
      \<and> ttPosition (releasePage ?u) = vector3 (- 3) 0 0"
    by (simp add: vector3_def)
  ultimately show ?thesis using 1 2 3 by simp
qed

section \<open>Pouring\<close>

lemma afterPour_nth:
  assumes "j < length items"
  shows "afterPour items i m ! j =
     (if j = i
      then (items ! i)\<lparr>liquidLevel := liquidLevel (items ! i)
             - 0.015 * real (length (filter (receives items i) [0..<m]))\<rparr>
      else if j < m \<and> receives items i j then poured items i j
      else items ! j)"
  using assms by (simp add: afterPour_def)

lemma afterPour_source:
  assumes "i < length items"
  shows "afterPour items i m ! i = (items ! i)\<lparr>liquidLevel := liquidLevel (items ! i)
             - 0.015 * real (length (filter (receives items i) [0..<m]))\<rparr>"
  using assms by (simp add: afterPour_nth)

lemma afterPour_length [simp]: "length (afterPour items i m) = length items"
  by (simp add: afterPour_def)

lemma afterPour_0: "afterPour items i 0 = items"
  by (rule nth_equalityI) (simp_all add: afterPour_nth)

lemma transfer_afterPour:
  assumes "i < length items" and "m < length items"
  shows "transfer i m (afterPour items i m, c)
       = (afterPour items i (Suc m), c \<or> receives items i m)"
proof (cases "receives items i m")
  case False
  have same: "afterPour items i (Suc m) = afterPour items i m"
    using False
    by (intro nth_equalityI) (auto simp: afterPour_nth less_Suc_eq)
  have "i = m \<or> \<not> pourCondition (afterPour items i m ! i) (afterPour items i m ! m)"
    using False assms by (auto simp: receives_def afterPour_nth pourCondition_def)
  from transfer_skips [OF this] same False show ?thesis by simp
next
  case True
  then have ne: "i \<noteq> m" and pc: "pourCondition (items ! i) (items ! m)"
    by (simp_all add: receives_def)
  let ?its = "afterPour items i m"
  have src: "?its ! i = (items ! i)\<lparr>liquidLevel := liquidLevel (items ! i)
             - 0.015 * real (length (filter (receives items i) [0..<m]))\<rparr>"
    using assms by (simp add: afterPour_nth)
  have tgt: "?its ! m = items ! m"
    using assms ne by (simp add: afterPour_nth)
  have pc': "pourCondition (?its ! i) (?its ! m)"
    using pc by (simp add: src tgt pourCondition_def)
  have cnt: "real (length (filter (receives items i) [0..<Suc m]))
      = real (length (filter (receives items i) [0..<m])) + 1"
    using True by simp
  have "(?its[i := (?its ! i)\<lparr>liquidLevel := liquidLevel (?its ! i) - 0.015\<rparr>])
          [m := (?its ! m)\<lparr>color := (if liquidLevel (?its ! m) \<le> 0.05 then color (?its ! i)
                          else lerpC (color (?its ! m)) (color (?its ! i)) 0.1),
                liquidLevel := min 1 (liquidLevel (?its ! m) + 0.015)\<rparr>]
        = afterPour items i (Suc m)"
  proof (rule nth_equalityI)
    show "length ((?its[i := (?its ! i)\<lparr>liquidLevel := liquidLevel (?its ! i) - 0.015\<rparr>])
          [m := (?its ! m)\<lparr>color := (if liquidLevel (?its ! m) \<le> 0.05 then color (?its ! i)
                          else lerpC (color (?its ! m)) (color (?its ! i)) 0.1),
                liquidLevel := min 1 (liquidLevel (?its ! m) + 0.015)\<rparr>])
        = length (afterPour items i (Suc m))"
      by simp
  next
    fix j
    assume "j < length ((?its[i := (?its ! i)\<lparr>liquidLevel := liquidLevel (?its ! i) - 0.015\<rparr>])
          [m := (?its ! m)\<lparr>color := (if liquidLevel (?its ! m) \<le> 0.05 then color (?its ! i)
                          else lerpC (color (?its ! m)) (color (?its ! i)) 0.1),
                liquidLevel := min 1 (liquidLevel (?its ! m) + 0.015)\<rparr>])"
    then have j: "j < length items" by simp
    consider "j = m" | "j = i" | "j \<noteq> m" "j \<noteq> i" by blast
    then show "((?its[i := (?its ! i)\<lparr>liquidLevel := liquidLevel (?its ! i) - 0.015\<rparr>])
          [m := (?its ! m)\<lparr>color := (if liquidLevel (?its ! m) \<le> 0.05 then color (?its ! i)
                          else lerpC (color (?its ! m)) (color (?its ! i)) 0.1),
                liquidLevel := min 1 (liquidLevel (?its ! m) + 0.015)\<rparr>]) ! j
        = afterPour items i (Suc m) ! j"
    proof cases
      case 1
      have "afterPour items i (Suc m) ! m = poured items i m"
        using assms ne True by (simp add: afterPour_nth)
      moreover have "(?its ! m)\<lparr>color := (if liquidLevel (?its ! m) \<le> 0.05 then color (?its ! i)
                          else lerpC (color (?its ! m)) (color (?its ! i)) 0.1),
                liquidLevel := min 1 (liquidLevel (?its ! m) + 0.015)\<rparr> = poured items i m"
        by (simp add: src tgt poured_def)
      ultimately show ?thesis using 1 assms by simp
    next
      case 2
      have "afterPour items i (Suc m) ! i = (items ! i)\<lparr>liquidLevel := liquidLevel (items ! i)
             - 0.015 * real (length (filter (receives items i) [0..<Suc m]))\<rparr>"
        by (rule afterPour_source) (rule assms)
      moreover have "(?its ! i)\<lparr>liquidLevel := liquidLevel (?its ! i) - 0.015\<rparr>
          = (items ! i)\<lparr>liquidLevel := liquidLevel (items ! i)
             - 0.015 * real (length (filter (receives items i) [0..<Suc m]))\<rparr>"
        unfolding cnt by (simp add: src algebra_simps)
      ultimately show ?thesis using 2 ne assms by simp
    next
      case 3
      then show ?thesis using j by (simp add: afterPour_nth less_Suc_eq)
    qed
  qed
  with transfer_pours [OF ne pc', of c] True show ?thesis by simp
qed

lemma targets_afterPour:
  assumes "i < length items" and "m \<le> length items"
  shows "foldl (\<lambda>s j. transfer i j s) (items, c) [0..<m]
       = (afterPour items i m, c \<or> (\<exists>j < m. receives items i j))"
  using assms(2)
proof (induction m)
  case 0
  show ?case by (simp add: afterPour_0)
next
  case (Suc m)
  then have "foldl (\<lambda>s j. transfer i j s) (items, c) [0..<m]
       = (afterPour items i m, c \<or> (\<exists>j < m. receives items i j))" by simp
  then have "foldl (\<lambda>s j. transfer i j s) (items, c) [0..<Suc m]
       = transfer i m (afterPour items i m, c \<or> (\<exists>j < m. receives items i j))"
    by simp
  also have "\<dots> = (afterPour items i (Suc m),
       (c \<or> (\<exists>j < m. receives items i j)) \<or> receives items i m)"
    by (rule transfer_afterPour) (use assms(1) Suc.prems in simp_all)
  also have "((c \<or> (\<exists>j < m. receives items i j)) \<or> receives items i m)
       = (c \<or> (\<exists>j < Suc m. receives items i j))"
    by (auto simp: less_Suc_eq)
  finally show ?case .
qed

lemma pourFrom_closed_form:
  assumes "i < length items"
  shows "pourFrom i (items, c) =
     (if pouring (items ! i)
      then (afterPour items i (length items), c \<or> (\<exists>j < length items. receives items i j))
      else (items, c))"
  using targets_afterPour [OF assms, of "length items" c]
  by (auto simp: pourFrom_def pouring_def Let_def)

lemma pourFrom_resting: "resting (fst s ! k) \<Longrightarrow> pourFrom k s = s"
  by (auto simp: pourFrom_def resting_def Let_def)

lemma resting_pose: "pose a = pose b \<Longrightarrow> resting a = resting b"
  by (simp add: resting_def pose_simps)

lemma pourStep_nth:
  assumes "pourStep st st'" and "k < length (fst st)"
  shows "length (fst st') = length (fst st)" "pose (fst st' ! k) = pose (fst st ! k)"
proof -
  have m: "map pose (fst st') = map pose (fst st)" using assms(1) by (simp add: pourStep_def)
  from arg_cong [OF m, of length] show l: "length (fst st') = length (fst st)" by simp
  from arg_cong [OF m, of "\<lambda>xs. xs ! k"] show "pose (fst st' ! k) = pose (fst st ! k)"
    using assms(2) l by simp
qed

lemma pour_single_source:
  assumes "i < length items"
    and "\<forall>k < length items. k \<noteq> i \<longrightarrow> resting (items ! k)"
  shows "pour (items, c) = pourFrom i (items, c)"
proof -
  let ?st = "(items, c)"
  have "m \<le> length items \<Longrightarrow>
      foldl (\<lambda>s k. pourFrom k s) ?st [0..<m] = (if i < m then pourFrom i ?st else ?st)" for m
  proof (induction m)
    case 0
    show ?case by simp
  next
    case (Suc m)
    let ?r = "if i < m then pourFrom i ?st else ?st"
    have r: "foldl (\<lambda>s k. pourFrom k s) ?st [0..<Suc m] = pourFrom m ?r"
      using Suc by simp
    show ?case
    proof (cases "m = i")
      case True
      with r show ?thesis by simp
    next
      case False
      have ps: "pourStep ?st ?r" by (simp add: pourStep_refl pourStep_pourFrom)
      have "pose (fst ?r ! m) = pose (items ! m)"
        using pourStep_nth(2) [OF ps, of m] Suc.prems by simp
      moreover have "resting (items ! m)" using assms(2) False Suc.prems by simp
      ultimately have "resting (fst ?r ! m)" using resting_pose by blast
      then have "pourFrom m ?r = ?r" by (rule pourFrom_resting)
      with r False show ?thesis by (auto simp: less_Suc_eq)
    qed
  qed
  from this [of "length items"] assms(1) show ?thesis by (simp add: pour_def)
qed

lemma receivers_card:
  "real (length (filter (receives items i) [0..<n]))
     = real (card {j. j < n \<and> j \<noteq> i \<and> pourCondition (items ! i) (items ! j)})"
proof -
  have s: "{j. j < n \<and> j \<noteq> i \<and> pourCondition (items ! i) (items ! j)}
      = set (filter (receives items i) [0..<n])"
    by (auto simp: receives_def)
  have "distinct (filter (receives items i) [0..<n])" by simp
  from distinct_card [OF this] show ?thesis unfolding s by simp
qed

lemma pourFrom_effect:
  fixes c :: bool
  assumes "i < length items" and "pouring (items ! i)"
  defines "items' \<equiv> fst (pourFrom i (items, c))"
  shows "length items' = length items"
    and "j < length items \<Longrightarrow> receives items i j \<Longrightarrow> items' ! j = poured items i j"
    and "j < length items \<Longrightarrow> j \<noteq> i \<Longrightarrow> \<not> receives items i j \<Longrightarrow> items' ! j = items ! j"
    and "items' ! i = (items ! i)\<lparr>liquidLevel := liquidLevel (items ! i)
           - 0.015 * real (card {j. j < length items \<and> j \<noteq> i
                \<and> pourCondition (items ! i) (items ! j)})\<rparr>"
proof -
  have e: "items' = afterPour items i (length items)"
    using assms by (simp add: pourFrom_closed_form)
  show "length items' = length items" by (simp add: e)
  show "j < length items \<Longrightarrow> receives items i j \<Longrightarrow> items' ! j = poured items i j"
    by (auto simp: e afterPour_nth receives_def)
  show "j < length items \<Longrightarrow> j \<noteq> i \<Longrightarrow> \<not> receives items i j \<Longrightarrow> items' ! j = items ! j"
    by (simp add: e afterPour_nth)
  show "items' ! i = (items ! i)\<lparr>liquidLevel := liquidLevel (items ! i)
           - 0.015 * real (card {j. j < length items \<and> j \<noteq> i
                \<and> pourCondition (items ! i) (items ! j)})\<rparr>"
    unfolding e using afterPour_source [OF assms(1), of "length items"]
    by (simp only: receivers_card)
qed

lemma interact_kept:
  assumes "interact hs t s = Some (its, c)" and "k < length s"
  shows "liquidLevel (its ! k) = liquidLevel (s ! k)" "color (its ! k) = color (s ! k)"
proof -
  from interact_nth(2) [OF assms] obtain mid c1 c2 where
    l: "itemTurn Left hs t (s ! k) = Some (mid, c1)" and
    r: "itemTurn Right hs t mid = Some (its ! k, c2)" by blast
  show "liquidLevel (its ! k) = liquidLevel (s ! k)"
    using itemTurn_kept(4) [OF l] itemTurn_kept(4) [OF r] by simp
  show "color (its ! k) = color (s ! k)"
    using itemTurn_kept(3) [OF l] itemTurn_kept(3) [OF r] by simp
qed

lemma lerpC_same [simp]: "lerpC a a alpha = a"
  by (simp add: lerpC_def)

lemma pouringPose_receivers:
  assumes "pouringPose its"
  shows "{j. j < length its \<and> j \<noteq> 0 \<and> pourCondition (its ! 0) (its ! j)} = {6}"
proof -
  have len: "length its = 8" and six: "pourCondition (its ! 0) (its ! 6)"
    using assms by (simp_all add: pouringPose_def)
  have no: "\<And>j. j \<in> {1, 2, 3, 4, 5, 7} \<Longrightarrow> \<not> pourCondition (its ! 0) (its ! j)"
    using assms by (auto simp: pouringPose_def)
  have "j < 8 \<Longrightarrow> j \<noteq> 0 \<Longrightarrow> j \<noteq> 6 \<Longrightarrow> j \<in> {1, 2, 3, 4, 5, 7}" for j :: nat
    by auto
  with no six len show ?thesis by auto
qed

lemma pouringPose_single_source:
  assumes "pouringPose its"
  shows "pour (its, c) = pourFrom 0 (its, c)"
proof (rule pour_single_source)
  show "0 < length its" using assms by (simp add: pouringPose_def)
  have len: "length its = 8"
    using assms by (simp add: pouringPose_def)
  have r: "\<And>k. k \<in> {1, 2, 3, 4, 5, 6, 7} \<Longrightarrow> resting (its ! k)"
    using assms by (auto simp: pouringPose_def)
  have "k < 8 \<Longrightarrow> k \<noteq> 0 \<Longrightarrow> k \<in> {1, 2, 3, 4, 5, 6, 7}" for k :: nat
    by auto
  with r len show "\<forall>k < length its. k \<noteq> 0 \<longrightarrow> resting (its ! k)" by auto
qed

lemma scenario_frame:
  assumes inv: "levelsAfter n s" and i: "interact hs t s = Some st" and pp: "pouringPose (fst st)"
  shows "levelsAfter (Suc n) (fst (pour st))" "color (fst (pour st) ! 0) = color (s ! 0)"
proof -
  obtain its c where st: "st = (its, c)" by (cases st)
  have i': "interact hs t s = Some (its, c)" using i st by simp
  have pp': "pouringPose its" using pp st by simp
  have len: "length s = 8" using inv by (simp add: levelsAfter_def)
  have len': "length its = 8" using pp' by (simp add: pouringPose_def)
  have l0: "liquidLevel (its ! 0) = 0.7 - 0.015 * real (min n 47)"
    and l6: "liquidLevel (its ! 6) = 0.015 * real (min n 47)"
    and c0: "color (its ! 0) = color (s ! 0)"
    and c6: "1 \<le> n \<Longrightarrow> color (its ! 6) = color (its ! 0)"
    using inv interact_kept [OF i', of 0] interact_kept [OF i', of 6] len
    by (simp_all add: levelsAfter_def)
  have p: "pour st = pourFrom 0 (its, c)"
    unfolding st by (rule pouringPose_single_source [OF pp'])
  have both: "levelsAfter (Suc n) (fst (pour st)) \<and> color (fst (pour st) ! 0) = color (s ! 0)"
  proof (cases "n < 47")
    case False
    then have m: "min n 47 = 47" "min (Suc n) 47 = 47" by simp_all
    have "\<not> pouring (its ! 0)" using l0 by (simp add: pouring_def m)
    then have "pour st = (its, c)" using p len' by (simp add: pourFrom_closed_form)
    then show ?thesis
      using l0 l6 c0 c6 len' False by (simp add: levelsAfter_def m)
  next
    case True
    then have m: "min n 47 = n" "min (Suc n) 47 = Suc n" by simp_all
    from True have "real n \<le> 46" by simp
    then have pos: "0 < liquidLevel (its ! 0)" and low: "liquidLevel (its ! 6) + 0.015 \<le> 1"
      using l0 l6 by (simp_all add: m)
    have act: "pouring (its ! 0)"
      using pp' pos by (simp add: pouring_def pouringPose_def)
    have z: "0 < length its" using len' by simp
    note eff = pourFrom_effect [OF z act, where c = c]
    have rec: "receives its 0 6" using pp' by (simp add: receives_def pouringPose_def)
    have t6: "fst (pour st) ! 6 = poured its 0 6"
      unfolding p using eff(2) [of 6] rec len' by simp
    have t0: "fst (pour st) ! 0 = (its ! 0)\<lparr>liquidLevel := liquidLevel (its ! 0) - 0.015\<rparr>"
      unfolding p using eff(4) [unfolded pouringPose_receivers [OF pp']] by simp
    have "length (fst (pour st)) = 8" unfolding p using eff(1) len' by simp
    moreover have "liquidLevel (fst (pour st) ! 0) = 0.7 - 0.015 * real (Suc n)"
    proof -
      have "liquidLevel (fst (pour st) ! 0) = liquidLevel (its ! 0) - 0.015" using t0 by simp
      also have "\<dots> = 0.7 - 0.015 * real n - 0.015" by (simp only: l0 m)
      also have "\<dots> = 0.7 - 0.015 * real (Suc n)" by (simp only: of_nat_Suc) argo
      finally show ?thesis .
    qed
    moreover have "liquidLevel (fst (pour st) ! 6) = 0.015 * real (Suc n)"
    proof -
      have "liquidLevel (fst (pour st) ! 6) = min 1 (liquidLevel (its ! 6) + 0.015)"
        using t6 by (simp add: poured_def)
      also have "\<dots> = liquidLevel (its ! 6) + 0.015" using low by simp
      also have "\<dots> = 0.015 * real n + 0.015" by (simp only: l6 m)
      also have "\<dots> = 0.015 * real (Suc n)" by (simp only: of_nat_Suc) argo
      finally show ?thesis .
    qed
    moreover have "color (fst (pour st) ! 6) = color (fst (pour st) ! 0)"
    proof (cases "n = 0")
      case True
      then show ?thesis using t6 t0 l6 by (simp add: poured_def m)
    next
      case False
      then have "color (its ! 6) = color (its ! 0)" using c6 by simp
      then show ?thesis using t6 t0 by (simp add: poured_def)
    qed
    moreover have "color (fst (pour st) ! 0) = color (s ! 0)" using t0 c0 by simp
    ultimately show ?thesis by (simp only: levelsAfter_def m) simp
  qed
  then show "levelsAfter (Suc n) (fst (pour st))" "color (fst (pour st) ! 0) = color (s ! 0)"
    by simp_all
qed

lemma scenario_run:
  assumes "levelsAfter n s" and "keptPouring ins s"
  shows "\<exists>s'. frames ins s = Some s' \<and> levelsAfter (n + length ins) s'
           \<and> color (s' ! 0) = color (s ! 0)"
  using assms
proof (induction ins arbitrary: n s)
  case Nil
  then show ?case by simp
next
  case (Cons a ins)
  obtain hs t where a: "a = (hs, t)" by (cases a)
  from Cons.prems(2) a obtain st where
    i: "interact hs t s = Some st" and pp: "pouringPose (fst st)"
    and rest: "keptPouring ins (fst (pour st))"
    by (cases "interact hs t s") simp_all
  have f: "frame hs t s = Some (fst (pour st))" using i by (simp add: frame_working_copy)
  from scenario_frame [OF Cons.prems(1) i pp] have
    inv: "levelsAfter (Suc n) (fst (pour st))" and c: "color (fst (pour st) ! 0) = color (s ! 0)"
    by simp_all
  from Cons.IH [OF inv rest] obtain s' where
    "frames ins (fst (pour st)) = Some s'" "levelsAfter (Suc n + length ins) s'"
    "color (s' ! 0) = color (fst (pour st) ! 0)" by blast
  with f c a show ?case by simp
qed

lemma keptPouring_take: "keptPouring ins s \<Longrightarrow> keptPouring (take m ins) s"
proof (induction ins arbitrary: m s)
  case Nil
  then show ?case by simp
next
  case (Cons a ins)
  obtain hs t where a: "a = (hs, t)" by (cases a)
  show ?case
  proof (cases m)
    case 0
    then show ?thesis by simp
  next
    case (Suc m')
    with Cons a show ?thesis by (auto split: option.splits)
  qed
qed

subsection \<open>The pouring scenario\<close>

text \<open>The scenario on the sample scene, with no hand in view.\<close>

lemma interact_no_hands:
  assumes "handOf Left hs = None" and "handOf Right hs = None"
  shows "interact hs t s = Some (s, False)"
  using assms by (simp add: interact_def forBothSides_def forSide_def)

lemma pourCondition_iff:
  "pourCondition a b \<longleftrightarrow>
     (vx (position a) - vx (position b)) * (vx (position a) - vx (position b))
       + (vy (position a) - vy (position b)) * (vy (position a) - vy (position b))
       + (vz (position a) - vz (position b)) * (vz (position a) - vz (position b)) < 6.25
     \<and> vy (position b) + 1 < vy (position a)"
proof -
  have "(0::real) \<le> 2.5" by simp
  from distanceTo_less [OF this, of "position a" "position b"] show ?thesis
    by (simp add: pourCondition_def)
qed

lemma pouringPose_pose:
  assumes "map pose a = map pose b"
  shows "pouringPose a = pouringPose b"
proof -
  have len: "length a = length b" using arg_cong [OF assms, of length] by simp
  have p: "k < length b \<Longrightarrow> pose (a ! k) = pose (b ! k)" for k
    using arg_cong [OF assms, of "\<lambda>xs. xs ! k"] len by simp
  show ?thesis
  proof (cases "length b = 8")
    case False
    with len show ?thesis by (simp add: pouringPose_def)
  next
    case True
    have "pose (a ! k) = pose (b ! k)" if "k < 8" for k using p that True by simp
    then have e: "\<And>k. k < 8 \<Longrightarrow> heldBy (a ! k) = heldBy (b ! k)"
      "\<And>k. k < 8 \<Longrightarrow> position (a ! k) = position (b ! k)"
      "\<And>k. k < 8 \<Longrightarrow> eqRotation (a ! k) = eqRotation (b ! k)"
      by (simp_all add: pose_simps)
    show ?thesis
      using len True by (simp add: pouringPose_def pourCondition_def resting_def e)
  qed
qed

lemma pouringPose_pour: "pouringPose (fst (pour st)) = pouringPose (fst st)"
  using pourStep_pour [of st] by (intro pouringPose_pose) (simp add: pourStep_def)

lemma keptPouring_no_hands:
  assumes "pouringPose s"
  shows "keptPouring (replicate n (initialState, t)) s"
  using assms
proof (induction n arbitrary: s)
  case 0
  show ?case by simp
next
  case (Suc n)
  have "pouringPose (fst (pour (s, False)))" using Suc.prems by (simp add: pouringPose_pour)
  from Suc.IH [OF this] Suc.prems show ?case by (simp add: interact_no_hands)
qed

lemma pouringScene_nth:
  "length pouringScene = 8"
  "pouringScene ! 0 = (INITIAL_ITEMS plainHex ! 0)
          \<lparr>heldBy := Some Left, position := vector3 (- 1.75) 1.4 0,
           eqRotation := euler 0 0 (- 2)\<rparr>"
  "0 < k \<Longrightarrow> pouringScene ! k = INITIAL_ITEMS plainHex ! k"
  by (simp_all add: pouringScene_def INITIAL_ITEMS_def)

lemma pouringPose_pouringScene: "pouringPose pouringScene"
  unfolding pouringPose_def
  by (simp add: pouringScene_nth pourCondition_iff resting_def)
    (simp add: INITIAL_ITEMS_def vector3_def euler_def)

lemma pouringScene_levels:
  "map liquidLevel pouringScene = map liquidLevel (INITIAL_ITEMS plainHex)"
  by (simp add: pouringScene_def INITIAL_ITEMS_def)

lemma levelsAfter_start:
  assumes "map liquidLevel s0 = map liquidLevel (INITIAL_ITEMS hex)"
  shows "levelsAfter 0 s0"
proof -
  have len: "length s0 = 8" using arg_cong [OF assms, of length] by simp
  have "liquidLevel (s0 ! k) = liquidLevel (INITIAL_ITEMS hex ! k)" if "k < 8" for k
    using arg_cong [OF assms, of "\<lambda>xs. xs ! k"] len that by simp
  from this [of 0] this [of 6] len show ?thesis
    by (simp add: levelsAfter_def INITIAL_ITEMS_def)
qed

text \<open>
  Claim C5, as stated, fails on the code once the tube runs dry. With the first test tube
  held by the left side, tilted, over the first beaker and no other vessel in reach, and
  the levels of the initial scene, 48 frames leave the beaker at 0.705, not at
  0.015 * 48 = 0.72: the transfer stops when the tube's level is no longer positive. The
  tube's level is then -0.005, not 0.
\<close>

theorem pour_48_frames_counterexample:
  "\<exists>s. frames (replicate 48 (initialState, 0)) pouringScene = Some s
     \<and> keptPouring (replicate 48 (initialState, 0)) pouringScene
     \<and> map liquidLevel pouringScene = map liquidLevel (INITIAL_ITEMS plainHex)
     \<and> liquidLevel (s ! 6) = 0.705 \<and> min 1 (0.015 * 48) = (0.72 :: real)
     \<and> liquidLevel (s ! 0) = - 0.005 \<and> max 0 (0.7 - 0.015 * 48) = (0 :: real)"
proof -
  let ?ins = "replicate 48 (initialState, 0 :: real)"
  have k: "keptPouring ?ins pouringScene"
    by (rule keptPouring_no_hands) (rule pouringPose_pouringScene)
  have "levelsAfter 0 pouringScene"
    by (rule levelsAfter_start) (rule pouringScene_levels)
  from scenario_run [OF this k] obtain s where
    "frames ?ins pouringScene = Some s" "levelsAfter (0 + length ?ins) s" by blast
  then have "frames ?ins pouringScene = Some s \<and> liquidLevel (s ! 6) = 0.705
      \<and> liquidLevel (s ! 0) = - 0.005"
    by (simp add: levelsAfter_def)
  with k pouringScene_levels show ?thesis by auto
qed

text \<open>
  Claim C5, amended. Start from a scene with the liquid levels of the initial scene (the
  first test tube at 0.7, the first beaker at 0) and let, after the interaction step of each
  of N consecutive frames, the tube be held, tilted beyond 1 rad and in pouring position
  over the beaker, with no other vessel in its pouring range and no other vessel held with
  a tilt. Then for N up to 46 the beaker's level is exactly 0.015 * N and the tube's is
  0.7 - 0.015 * N; from the first frame on the beaker has the tube's colour, which never
  changes; and from frame 47 on nothing is transferred any more: the levels after N frames
  are those after 47 frames.
\<close>

theorem pour_tube_into_beaker:
  assumes "map liquidLevel s0 = map liquidLevel (INITIAL_ITEMS hex)"
    and "keptPouring ins s0"
  shows "\<exists>s. frames ins s0 = Some s
     \<and> (length ins \<le> 46
        \<longrightarrow> liquidLevel (s ! 6) = 0.015 * real (length ins)
          \<and> liquidLevel (s ! 0) = 0.7 - 0.015 * real (length ins))
     \<and> (1 \<le> length ins \<longrightarrow> color (s ! 6) = color (s ! 0))
     \<and> color (s ! 0) = color (s0 ! 0)
     \<and> (47 \<le> length ins
        \<longrightarrow> (\<exists>s47. frames (take 47 ins) s0 = Some s47
               \<and> liquidLevel (s ! 6) = liquidLevel (s47 ! 6)
               \<and> liquidLevel (s ! 0) = liquidLevel (s47 ! 0)))"
proof -
  have start: "levelsAfter 0 s0" by (rule levelsAfter_start [OF assms(1)])
  from scenario_run [OF start assms(2)] obtain s where
    run: "frames ins s0 = Some s" and inv: "levelsAfter (length ins) s"
    and col: "color (s ! 0) = color (s0 ! 0)" by auto
  have early: "length ins \<le> 46 \<longrightarrow> liquidLevel (s ! 6) = 0.015 * real (length ins)
          \<and> liquidLevel (s ! 0) = 0.7 - 0.015 * real (length ins)"
  proof
    assume "length ins \<le> 46"
    then have "min (length ins) 47 = length ins" by simp
    with inv show "liquidLevel (s ! 6) = 0.015 * real (length ins)
          \<and> liquidLevel (s ! 0) = 0.7 - 0.015 * real (length ins)"
      by (simp only: levelsAfter_def)
  qed
  have late: "47 \<le> length ins \<longrightarrow> (\<exists>s47. frames (take 47 ins) s0 = Some s47
               \<and> liquidLevel (s ! 6) = liquidLevel (s47 ! 6)
               \<and> liquidLevel (s ! 0) = liquidLevel (s47 ! 0))"
  proof
    assume long: "47 \<le> length ins"
    have "keptPouring (take 47 ins) s0" by (rule keptPouring_take [OF assms(2)])
    from scenario_run [OF start this] obtain s47 where
      r: "frames (take 47 ins) s0 = Some s47" and i: "levelsAfter (0 + length (take 47 ins)) s47"
      by blast
    from long have "length (take 47 ins) = 47" "min (length ins) 47 = 47" by simp_all
    with i inv have "liquidLevel (s ! 6) = liquidLevel (s47 ! 6)
        \<and> liquidLevel (s ! 0) = liquidLevel (s47 ! 0)"
      by (simp add: levelsAfter_def)
    with r show "\<exists>s47. frames (take 47 ins) s0 = Some s47
               \<and> liquidLevel (s ! 6) = liquidLevel (s47 ! 6)
               \<and> liquidLevel (s ! 0) = liquidLevel (s47 ! 0)"
      by blast
  qed
  from inv have "1 \<le> length ins \<longrightarrow> color (s ! 6) = color (s ! 0)"
    by (simp add: levelsAfter_def)
  with run early late col show ?thesis by blast
qed

theorem pour_tube_into_beaker_witness:
  "\<exists>s. frames (replicate 3 (initialState, 0)) pouringScene = Some s
     \<and> liquidLevel (s ! 6) = 0.045 \<and> liquidLevel (s ! 0) = 0.655
     \<and> color (s ! 6) = plainHex ''#ff4444'' \<and> color (s ! 0) = plainHex ''#ff4444''"
proof -
  let ?ins = "replicate 3 (initialState, 0 :: real)"
  have k: "keptPouring ?ins pouringScene"
    by (rule keptPouring_no_hands) (rule pouringPose_pouringScene)
  from pour_tube_into_beaker [OF pouringScene_levels k] obtain s where
    "frames ?ins pouringScene = Some s"
    "liquidLevel (s ! 6) = 0.015 * real (length ?ins)"
    "liquidLevel (s ! 0) = 0.7 - 0.015 * real (length ?ins)"
    "color (s ! 6) = color (s ! 0)" "color (s ! 0) = color (pouringScene ! 0)"
    by auto
  moreover have "color (pouringScene ! 0) = plainHex ''#ff4444''"
    by (simp add: pouringScene_nth INITIAL_ITEMS_def)
  ultimately show ?thesis by simp
qed

subsection \<open>The per-frame transfer\<close>

lemma frame_no_hands:
  assumes "handOf Left hs = None" and "handOf Right hs = None"
  shows "frame hs t s = Some (fst (pour (s, False)))"
  by (simp add: frame_working_copy interact_no_hands [OF assms])

lemma tiltedScene_nth:
  "length (tiltedScene hex) = 8"
  "tiltedScene hex ! 0 = (INITIAL_ITEMS hex ! 0)
          \<lparr>heldBy := Some Left, position := vector3 (- 2.5) 0.5 0,
           eqRotation := euler 0 0 (- 2)\<rparr>"
  "0 < k \<Longrightarrow> tiltedScene hex ! k = INITIAL_ITEMS hex ! k"
  by (simp_all add: tiltedScene_def INITIAL_ITEMS_def)

lemma INITIAL_ITEMS_resting: "k < 8 \<Longrightarrow> resting (INITIAL_ITEMS hex ! k)"
proof -
  have "\<forall>item \<in> set (INITIAL_ITEMS hex). heldBy item = None"
    by (simp add: INITIAL_ITEMS_def)
  then show "k < 8 \<Longrightarrow> resting (INITIAL_ITEMS hex ! k)"
    by (simp add: resting_def)
qed

lemma tiltedScene_pour:
  "pour (tiltedScene hex, c) = pourFrom 0 (tiltedScene hex, c)"
  by (rule pour_single_source)
    (auto simp: tiltedScene_nth INITIAL_ITEMS_resting)

lemma tiltedScene_source:
  "pouring (tiltedScene hex ! 0)" "receives (tiltedScene hex) 0 1"
  by (simp_all add: pouring_def receives_def tiltedScene_nth pourCondition_iff
      INITIAL_ITEMS_def vector3_def euler_def)

lemma lerpC_reaches: "lerpC a c 0.1 = c \<longleftrightarrow> a = c"
proof
  assume e: "lerpC a c 0.1 = c"
  have "cr a + (cr c - cr a) * 0.1 = cr c" "cg a + (cg c - cg a) * 0.1 = cg c"
    "cb a + (cb c - cb a) * 0.1 = cb c"
    using arg_cong [OF e, of cr] arg_cong [OF e, of cg] arg_cong [OF e, of cb]
    by (simp_all add: lerpC_def)
  then have "cr a = cr c" "cg a = cg c" "cb a = cb c" by argo+
  then show "a = c" by (intro Color.equality) simp_all
next
  assume "a = c"
  then show "lerpC a c 0.1 = c" by (simp add: lerpC_def)
qed

text \<open>
  Claim C4, as stated, fails on the code: the first transfer into a vessel does not
  replace its colour when that vessel holds more than 0.05. Take the initial scene with
  the first test tube (level 0.7, colour string \<^verbatim>\<open>#ff4444\<close>) in the left hand at
  (-2.5, 0.5, 0), tilted by -2 rad, over the untouched second test tube (level 0.6, colour
  string \<^verbatim>\<open>#4444ff\<close>). One frame raises the second tube to 0.615 and moves its colour
  one tenth of the way toward the first tube's; that is the source's colour only if the two
  colour strings denote the same colour. This holds for every reading \<open>hex\<close> of the
  colour strings.
\<close>

theorem first_transfer_blends_counterexample:
  "\<forall>hex. \<exists>s. frame initialState 0 (tiltedScene hex) = Some s
       \<and> heldBy (tiltedScene hex ! 0) = Some Left \<and> liquidLevel (tiltedScene hex ! 0) = 0.7
       \<and> ez (eqRotation (tiltedScene hex ! 0)) = - 2
       \<and> pourCondition (tiltedScene hex ! 0) (tiltedScene hex ! 1)
       \<and> tiltedScene hex ! 1 = INITIAL_ITEMS hex ! 1
       \<and> color (tiltedScene hex ! 0) = hex ''#ff4444''
       \<and> color (tiltedScene hex ! 1) = hex ''#4444ff''
       \<and> liquidLevel (tiltedScene hex ! 1) = 0.6
       \<and> liquidLevel (s ! 1) = 0.615
       \<and> color (s ! 1) = lerpC (hex ''#4444ff'') (hex ''#ff4444'') 0.1
       \<and> (color (s ! 1) = color (tiltedScene hex ! 0)
            \<longleftrightarrow> hex ''#4444ff'' = hex ''#ff4444'')"
proof
  fix hex :: "string \<Rightarrow> Color"
  let ?t = "tiltedScene hex"
  let ?s = "fst (pour (?t, False))"
  have f: "frame initialState 0 ?t = Some ?s" by (simp add: frame_no_hands)
  have z: "0 < length ?t" by (simp add: tiltedScene_nth)
  have "1 < length ?t" by (simp add: tiltedScene_nth)
  then have "?s ! 1 = poured ?t 0 1"
    unfolding tiltedScene_pour
    by (rule pourFrom_effect(2) [OF z tiltedScene_source(1) _ tiltedScene_source(2)])
  then have t: "liquidLevel (?s ! 1) = 0.615"
    "color (?s ! 1) = lerpC (hex ''#4444ff'') (hex ''#ff4444'') 0.1"
    by (simp_all add: poured_def tiltedScene_nth INITIAL_ITEMS_def)
  have src: "heldBy (?t ! 0) = Some Left" "liquidLevel (?t ! 0) = 0.7"
    "ez (eqRotation (?t ! 0)) = - 2"
    "color (?t ! 0) = hex ''#ff4444''" "color (?t ! 1) = hex ''#4444ff''"
    "liquidLevel (?t ! 1) = 0.6"
    "?t ! 1 = INITIAL_ITEMS hex ! 1"
    by (simp_all add: tiltedScene_nth INITIAL_ITEMS_def euler_def)
  have pc: "pourCondition (?t ! 0) (?t ! 1)"
    using tiltedScene_source(2) by (simp add: receives_def)
  have iff: "color (?s ! 1) = color (?t ! 0) \<longleftrightarrow> hex ''#4444ff'' = hex ''#ff4444''"
    unfolding t(2) src(4) by (rule lerpC_reaches)
  from f t src pc iff show "\<exists>s. frame initialState 0 ?t = Some s
       \<and> heldBy (?t ! 0) = Some Left \<and> liquidLevel (?t ! 0) = 0.7
       \<and> ez (eqRotation (?t ! 0)) = - 2
       \<and> pourCondition (?t ! 0) (?t ! 1)
       \<and> ?t ! 1 = INITIAL_ITEMS hex ! 1
       \<and> color (?t ! 0) = hex ''#ff4444''
       \<and> color (?t ! 1) = hex ''#4444ff''
       \<and> liquidLevel (?t ! 1) = 0.6
       \<and> liquidLevel (s ! 1) = 0.615
       \<and> color (s ! 1) = lerpC (hex ''#4444ff'') (hex ''#ff4444'') 0.1
       \<and> (color (s ! 1) = color (?t ! 0) \<longleftrightarrow> hex ''#4444ff'' = hex ''#ff4444'')"
    by blast
qed

text \<open>
  Claim C4, amended. In a chemistry frame, when the pouring loop reaches a source that is
  held, has a positive liquid level and a tilt \<open>|rotation.z| > 1\<close>, every other vessel
  within distance 2.5 whose height is lower by more than 1 receives 0.015: its level
  becomes \<open>min 1 (level + 0.015)\<close>, so it rises strictly unless the vessel is full, and a
  level within [0, 1] stays within [0, 1]; its colour is replaced by the source's colour
  when its own level before the transfer is at most 0.05 and is otherwise moved one tenth
  of the way toward the source's colour. The source's level never rises and falls strictly
  when there is a receiving vessel; when the source holds at least 0.015 for every
  receiving vessel, it drops by exactly that total and a level within [0, 1] stays within
  [0, 1]. Nothing is said of the source's level when it holds less than that. The source's
  colour and every vessel out of range stay as they are. When no other vessel is held with
  a tilt, this one turn is the whole pouring phase of the frame, and a frame returns the
  state after that phase.
\<close>

theorem pouring_turn_effect:
  assumes "i < length items" and "heldBy (items ! i) \<noteq> None"
    and "0 < liquidLevel (items ! i)" and "1 < \<bar>ez (eqRotation (items ! i))\<bar>"
  shows "\<exists>items'. fst (pourFrom i (items, c)) = items' \<and> length items' = length items
     \<and> (\<forall>j < length items. j \<noteq> i \<and> pourCondition (items ! i) (items ! j)
          \<longrightarrow> liquidLevel (items' ! j) = min 1 (liquidLevel (items ! j) + 0.015)
            \<and> (liquidLevel (items ! j) < 1 \<longrightarrow> liquidLevel (items ! j) < liquidLevel (items' ! j))
            \<and> (liquidLevel (items ! j) \<le> 1 \<longrightarrow> liquidLevel (items' ! j) \<le> 1)
            \<and> (0 \<le> liquidLevel (items ! j) \<longrightarrow> 0 \<le> liquidLevel (items' ! j))
            \<and> color (items' ! j)
                = (if liquidLevel (items ! j) \<le> 0.05 then color (items ! i)
                   else lerpC (color (items ! j)) (color (items ! i)) 0.1))
     \<and> (\<forall>j < length items. j \<noteq> i \<and> \<not> pourCondition (items ! i) (items ! j)
          \<longrightarrow> items' ! j = items ! j)
     \<and> liquidLevel (items' ! i) \<le> liquidLevel (items ! i)
     \<and> ((\<exists>j < length items. j \<noteq> i \<and> pourCondition (items ! i) (items ! j))
          \<longrightarrow> liquidLevel (items' ! i) < liquidLevel (items ! i))
     \<and> (0.015 * real (card {j. j < length items \<and> j \<noteq> i
               \<and> pourCondition (items ! i) (items ! j)}) \<le> liquidLevel (items ! i)
          \<longrightarrow> liquidLevel (items' ! i)
                = liquidLevel (items ! i)
                  - 0.015 * real (card {j. j < length items \<and> j \<noteq> i
                      \<and> pourCondition (items ! i) (items ! j)})
            \<and> 0 \<le> liquidLevel (items' ! i)
            \<and> (liquidLevel (items ! i) \<le> 1 \<longrightarrow> liquidLevel (items' ! i) \<le> 1))
     \<and> color (items' ! i) = color (items ! i)
     \<and> ((\<forall>k < length items. k \<noteq> i
            \<longrightarrow> heldBy (items ! k) = None \<or> \<bar>ez (eqRotation (items ! k))\<bar> \<le> 1)
          \<longrightarrow> pour (items, c) = pourFrom i (items, c))
     \<and> (\<forall>hs t its. frame hs t items = Some its
          \<longrightarrow> (\<exists>st. interact hs t items = Some st \<and> its = fst (pour st)))"
proof -
  let ?R = "{j. j < length items \<and> j \<noteq> i \<and> pourCondition (items ! i) (items ! j)}"
  define items' where "items' = fst (pourFrom i (items, c))"
  have act: "pouring (items ! i)" using assms by (simp add: pouring_def)
  note eff = pourFrom_effect [OF assms(1) act, where c = c, folded items'_def]
  have targets: "\<forall>j < length items. j \<noteq> i \<and> pourCondition (items ! i) (items ! j)
          \<longrightarrow> liquidLevel (items' ! j) = min 1 (liquidLevel (items ! j) + 0.015)
            \<and> (liquidLevel (items ! j) < 1 \<longrightarrow> liquidLevel (items ! j) < liquidLevel (items' ! j))
            \<and> (liquidLevel (items ! j) \<le> 1 \<longrightarrow> liquidLevel (items' ! j) \<le> 1)
            \<and> (0 \<le> liquidLevel (items ! j) \<longrightarrow> 0 \<le> liquidLevel (items' ! j))
            \<and> color (items' ! j)
                = (if liquidLevel (items ! j) \<le> 0.05 then color (items ! i)
                   else lerpC (color (items ! j)) (color (items ! i)) 0.1)"
  proof (intro allI impI)
    fix j assume j: "j < length items" and r: "j \<noteq> i \<and> pourCondition (items ! i) (items ! j)"
    then have "items' ! j = poured items i j" using eff(2) by (simp add: receives_def)
    then show "liquidLevel (items' ! j) = min 1 (liquidLevel (items ! j) + 0.015)
            \<and> (liquidLevel (items ! j) < 1 \<longrightarrow> liquidLevel (items ! j) < liquidLevel (items' ! j))
            \<and> (liquidLevel (items ! j) \<le> 1 \<longrightarrow> liquidLevel (items' ! j) \<le> 1)
            \<and> (0 \<le> liquidLevel (items ! j) \<longrightarrow> 0 \<le> liquidLevel (items' ! j))
            \<and> color (items' ! j)
                = (if liquidLevel (items ! j) \<le> 0.05 then color (items ! i)
                   else lerpC (color (items ! j)) (color (items ! i)) 0.1)"
      by (simp add: poured_def)
  qed
  have others: "\<forall>j < length items. j \<noteq> i \<and> \<not> pourCondition (items ! i) (items ! j)
          \<longrightarrow> items' ! j = items ! j"
    using eff(3) by (simp add: receives_def)
  have src: "items' ! i = (items ! i)\<lparr>liquidLevel := liquidLevel (items ! i)
           - 0.015 * real (card ?R)\<rparr>"
    by (rule eff(4))
  then have lvl: "liquidLevel (items' ! i) = liquidLevel (items ! i) - 0.015 * real (card ?R)"
    and col: "color (items' ! i) = color (items ! i)"
    by simp_all
  have le: "liquidLevel (items' ! i) \<le> liquidLevel (items ! i)"
    using lvl by simp
  have drop: "(\<exists>j < length items. j \<noteq> i \<and> pourCondition (items ! i) (items ! j))
          \<longrightarrow> liquidLevel (items' ! i) < liquidLevel (items ! i)"
  proof
    assume "\<exists>j < length items. j \<noteq> i \<and> pourCondition (items ! i) (items ! j)"
    then have "?R \<noteq> {}" by blast
    moreover have "finite ?R" by simp
    ultimately have "0 < card ?R" by (simp add: card_gt_0_iff)
    then have "0 < real (card ?R)" by simp
    with lvl show "liquidLevel (items' ! i) < liquidLevel (items ! i)" by simp
  qed
  have exact: "0.015 * real (card ?R) \<le> liquidLevel (items ! i)
          \<longrightarrow> liquidLevel (items' ! i) = liquidLevel (items ! i) - 0.015 * real (card ?R)
            \<and> 0 \<le> liquidLevel (items' ! i)
            \<and> (liquidLevel (items ! i) \<le> 1 \<longrightarrow> liquidLevel (items' ! i) \<le> 1)"
    using lvl le by simp
  have single: "(\<forall>k < length items. k \<noteq> i
            \<longrightarrow> heldBy (items ! k) = None \<or> \<bar>ez (eqRotation (items ! k))\<bar> \<le> 1)
          \<longrightarrow> pour (items, c) = pourFrom i (items, c)"
    using pour_single_source [OF assms(1), of c] by (simp add: resting_def)
  have whole: "\<forall>hs t its. frame hs t items = Some its
          \<longrightarrow> (\<exists>st. interact hs t items = Some st \<and> its = fst (pour st))"
    by (auto elim: frame_Some)
  from eff(1) targets others le drop exact col single whole show ?thesis
    unfolding items'_def by blast
qed

theorem pouring_turn_effect_witness:
  "liquidLevel (fst (pourFrom 0 (tiltedScene plainHex, False)) ! 1) = 0.615
   \<and> color (fst (pourFrom 0 (tiltedScene plainHex, False)) ! 1)
       = lerpC (plainHex ''#4444ff'') (plainHex ''#ff4444'') 0.1
   \<and> liquidLevel (fst (pourFrom 0 (tiltedScene plainHex, False)) ! 0) < 0.7
   \<and> fst (pourFrom 0 (tiltedScene plainHex, False)) ! 7 = tiltedScene plainHex ! 7
   \<and> frame initialState 0 (tiltedScene plainHex)
       = Some (fst (pourFrom 0 (tiltedScene plainHex, False)))"
proof -
  let ?t = "tiltedScene plainHex"
  let ?s = "fst (pourFrom 0 (?t, False))"
  have pc1: "pourCondition (?t ! 0) (?t ! 1)"
    and pc7: "\<not> pourCondition (?t ! 0) (?t ! 7)"
    by (simp_all add: tiltedScene_nth pourCondition_iff INITIAL_ITEMS_def vector3_def)
  have others: "\<forall>k < length ?t. k \<noteq> 0
      \<longrightarrow> heldBy (?t ! k) = None \<or> \<bar>ez (eqRotation (?t ! k))\<bar> \<le> 1"
    using INITIAL_ITEMS_resting [of _ plainHex]
    by (auto simp: tiltedScene_nth resting_def)
  have a: "0 < length ?t" "heldBy (?t ! 0) \<noteq> None"
    "0 < liquidLevel (?t ! 0)" "1 < \<bar>ez (eqRotation (?t ! 0))\<bar>"
    by (simp_all add: tiltedScene_nth INITIAL_ITEMS_def euler_def)
  from pouring_turn_effect [OF a, of False] have
    t: "\<forall>j < length ?t. j \<noteq> 0 \<and> pourCondition (?t ! 0) (?t ! j)
          \<longrightarrow> liquidLevel (?s ! j) = min 1 (liquidLevel (?t ! j) + 0.015)
            \<and> color (?s ! j)
                = (if liquidLevel (?t ! j) \<le> 0.05 then color (?t ! 0)
                   else lerpC (color (?t ! j)) (color (?t ! 0)) 0.1)"
    and o: "\<forall>j < length ?t. j \<noteq> 0 \<and> \<not> pourCondition (?t ! 0) (?t ! j)
          \<longrightarrow> ?s ! j = ?t ! j"
    and d: "(\<exists>j < length ?t. j \<noteq> 0 \<and> pourCondition (?t ! 0) (?t ! j))
          \<longrightarrow> liquidLevel (?s ! 0) < liquidLevel (?t ! 0)"
    and p: "(\<forall>k < length ?t. k \<noteq> 0
            \<longrightarrow> heldBy (?t ! k) = None \<or> \<bar>ez (eqRotation (?t ! k))\<bar> \<le> 1)
          \<longrightarrow> pour (?t, False) = pourFrom 0 (?t, False)"
    by blast+
  have one: "(1::nat) < length ?t \<and> (1::nat) \<noteq> 0" by (simp add: tiltedScene_nth)
  have seven: "(7::nat) < length ?t \<and> (7::nat) \<noteq> 0" by (simp add: tiltedScene_nth)
  have "liquidLevel (?s ! 1) = min 1 (liquidLevel (?t ! 1) + 0.015)
      \<and> color (?s ! 1) = (if liquidLevel (?t ! 1) \<le> 0.05 then color (?t ! 0)
                   else lerpC (color (?t ! 1)) (color (?t ! 0)) 0.1)"
    using t one pc1 by blast
  then have 1: "liquidLevel (?s ! 1) = 0.615"
    "color (?s ! 1) = lerpC (plainHex ''#4444ff'') (plainHex ''#ff4444'') 0.1"
    by (simp_all add: tiltedScene_nth INITIAL_ITEMS_def)
  have "liquidLevel (?s ! 0) < liquidLevel (?t ! 0)"
    using d one pc1 by blast
  then have 2: "liquidLevel (?s ! 0) < 0.7" by (simp add: tiltedScene_nth INITIAL_ITEMS_def)
  have 3: "?s ! 7 = ?t ! 7" using o seven pc7 by blast
  have "pour (?t, False) = pourFrom 0 (?t, False)" using p others by blast
  then have 4: "frame initialState 0 ?t = Some ?s" by (simp add: frame_no_hands)
  from 1 2 3 4 show ?thesis by simp
qed

section \<open>Temporal smoothing\<close>

lemma atan2_unit:
  assumes "0 < s" and "0 \<le> c" and "s * s + c * c = 1"
  shows "sin (atan2 s c) = s" and "cos (atan2 s c) = c"
    and "0 < atan2 s c" and "atan2 s c \<le> pi / 2"
proof -
  have "sin (atan2 s c) = s \<and> cos (atan2 s c) = c \<and> 0 < atan2 s c \<and> atan2 s c \<le> pi / 2"
  proof (cases "c = 0")
    case True
    with assms have "s * s = 1" by simp
    then have "s = 1" using assms(1)
      by (metis abs_of_pos mult_cancel_left1 power2_eq_square real_sqrt_abs2 real_sqrt_one abs_of_pos real_sqrt_mult_self)
    with True show ?thesis by (simp add: atan2_def)
  next
    case False
    then have c: "0 < c" using assms(2) by simp
    have "1 + (s / c)\<^sup>2 = (1 / c)\<^sup>2"
    proof -
      have "1 + (s / c)\<^sup>2 = (c * c + s * s) / (c * c)"
        using c by (simp add: power2_eq_square field_simps)
      also have "\<dots> = (1 / c)\<^sup>2" using assms(3) by (simp add: power2_eq_square add.commute)
      finally show ?thesis .
    qed
    then have sq: "sqrt (1 + (s / c)\<^sup>2) = 1 / c" using c by (simp add: real_sqrt_divide)
    have a: "atan2 s c = arctan (s / c)" using c by (simp add: atan2_def)
    have "sin (arctan (s / c)) = s" using c by (simp add: sin_arctan sq)
    moreover have "cos (arctan (s / c)) = c" using c by (simp add: cos_arctan sq)
    moreover have "0 < arctan (s / c)" using c assms(1) by (simp add: arctan_less_zero_iff zero_less_arctan_iff)
    moreover have "arctan (s / c) \<le> pi / 2" using arctan_ubound [of "s / c"] by simp
    ultimately show ?thesis using a by simp
  qed
  then show "sin (atan2 s c) = s" and "cos (atan2 s c) = c"
    and "0 < atan2 s c" and "atan2 s c \<le> pi / 2" by simp_all
qed

lemma sin_sum_squares:
  fixes x y :: real
  shows "(sin x)\<^sup>2 + (sin y)\<^sup>2 + 2 * sin x * sin y * cos (x + y) = (sin (x + y))\<^sup>2"
proof -
  have cx: "(cos x)\<^sup>2 = 1 - (sin x)\<^sup>2" and cy: "(cos y)\<^sup>2 = 1 - (sin y)\<^sup>2"
    by (simp_all add: cos_squared_eq)
  have "(sin (x + y))\<^sup>2
      = (sin x)\<^sup>2 * (cos y)\<^sup>2 + (cos x)\<^sup>2 * (sin y)\<^sup>2 + 2 * sin x * cos x * sin y * cos y"
    by (simp add: sin_add power2_eq_square algebra_simps)
  also have "\<dots> = (sin x)\<^sup>2 + (sin y)\<^sup>2 - 2 * (sin x)\<^sup>2 * (sin y)\<^sup>2
      + 2 * sin x * cos x * sin y * cos y"
    unfolding cx cy by (simp add: algebra_simps)
  also have "\<dots> = (sin x)\<^sup>2 + (sin y)\<^sup>2 + 2 * sin x * sin y * cos (x + y)"
    by (simp add: cos_add power2_eq_square algebra_simps)
  finally show ?thesis by simp
qed

lemma sin_plus_sin_cos:
  fixes x y :: real
  shows "sin x + sin y * cos (x + y) = cos y * sin (x + y)"
proof -
  have "sin x + sin y * cos (x + y) = sin x * (1 - (sin y)\<^sup>2) + sin y * cos x * cos y"
    by (simp add: cos_add power2_eq_square algebra_simps)
  also have "\<dots> = sin x * (cos y)\<^sup>2 + sin y * cos x * cos y"
    by (simp add: cos_squared_eq)
  also have "\<dots> = cos y * sin (x + y)"
    by (simp add: sin_add power2_eq_square algebra_simps)
  finally show ?thesis .
qed

lemma dotQ_blendQ:
  "dotQ (blendQ a p b r) (blendQ a p b r)
     = a * a * dotQ p p + 2 * a * b * dotQ p r + b * b * dotQ r r"
  by (simp add: dotQ_def blendQ_def algebra_simps)

lemma dotQ_blendQ_left: "dotQ p (blendQ a p b r) = a * dotQ p p + b * dotQ p r"
  by (simp add: dotQ_def blendQ_def algebra_simps)

lemma dotQ_blendQ_right: "dotQ (blendQ a p b r) r = a * dotQ p r + b * dotQ r r"
  by (simp add: dotQ_def blendQ_def algebra_simps)

lemma dotQ_scaleQ: "dotQ (scaleQ s a) (scaleQ s a) = s * s * dotQ a a"
  "dotQ p (scaleQ s a) = s * dotQ p a"
  by (simp_all add: dotQ_def scaleQ_def algebra_simps)

lemma scaleQ_blendQ: "scaleQ s (blendQ a p b r) = blendQ (s * a) p (s * b) r"
  by (simp add: scaleQ_def blendQ_def algebra_simps)

lemma blendQ_left: "blendQ 1 p 0 r = p"
  by (simp add: blendQ_def)

lemma dotQ_nonneg: "0 \<le> dotQ a a"
  by (simp add: dotQ_def)

lemma towards_unit: "dotQ (towards p r) (towards p r) = dotQ r r"
  by (simp add: towards_def dotQ_def scaleQ_def)

lemma dotQ_towards: "dotQ p (towards p r) = \<bar>dotQ p r\<bar>"
  by (simp add: towards_def dotQ_def scaleQ_def)

lemma dotQ_unit_le:
  assumes "dotQ p p = 1" and "dotQ r r = 1"
  shows "dotQ p r \<le> 1"
proof -
  have "0 \<le> dotQ (blendQ 1 p (- 1) r) (blendQ 1 p (- 1) r)" by (rule dotQ_nonneg)
  then show ?thesis using assms by (simp add: dotQ_blendQ)
qed

lemma on_arc:
  assumes p: "dotQ p p = 1" and r: "dotQ r r = 1" and a: "0 \<le> a" and b: "0 \<le> b"
    and c: "0 \<le> dotQ p r" and u: "dotQ (blendQ a p b r) (blendQ a p b r) = 1"
  shows "dotQ p r \<le> dotQ p (blendQ a p b r)" and "dotQ p r \<le> dotQ (blendQ a p b r) r"
proof -
  define c where "c = dotQ p r"
  have c0: "0 \<le> c" and c1: "c \<le> 1"
    using c dotQ_unit_le [OF p r] by (simp_all add: c_def)
  have e: "a * a + 2 * a * b * c + b * b = 1"
    using u p r by (simp add: dotQ_blendQ c_def)
  have abc: "0 \<le> a * b * c" using a b c0 by simp
  have bb: "b * b \<le> 1" and aa: "a * a \<le> 1"
    using e abc mult_nonneg_nonneg [OF a a] mult_nonneg_nonneg [OF b b] by linarith+
  have cc: "c * c \<le> 1" using c0 c1 by (simp add: mult_le_one)
  have "c \<le> a + b * c"
  proof (rule power2_le_imp_le)
    have "(a + b * c)\<^sup>2 = 1 - b * b * (1 - c * c)"
      using e by (simp add: power2_eq_square algebra_simps)
    moreover have "b * b * (1 - c * c) \<le> 1 * (1 - c * c)"
      using bb cc by (intro mult_right_mono) simp_all
    ultimately show "c\<^sup>2 \<le> (a + b * c)\<^sup>2" by (simp add: power2_eq_square)
    show "0 \<le> a + b * c" using a b c0 by simp
  qed
  moreover have "c \<le> a * c + b"
  proof (rule power2_le_imp_le)
    have "(a * c + b)\<^sup>2 = 1 - a * a * (1 - c * c)"
      using e by (simp add: power2_eq_square algebra_simps)
    moreover have "a * a * (1 - c * c) \<le> 1 * (1 - c * c)"
      using aa cc by (intro mult_right_mono) simp_all
    ultimately show "c\<^sup>2 \<le> (a * c + b)\<^sup>2" by (simp add: power2_eq_square)
    show "0 \<le> a * c + b" using a b c0 by simp
  qed
  ultimately show "dotQ p r \<le> dotQ p (blendQ a p b r)"
    and "dotQ p r \<le> dotQ (blendQ a p b r) r"
    using p r by (simp_all add: dotQ_blendQ_left dotQ_blendQ_right c_def)
qed

text \<open>The three branches of the interpolation between two unit quaternions, for a factor
  strictly between 0 and 1.\<close>

lemma slerp_same:
  assumes "t \<noteq> 0" and "t \<noteq> 1" and "1 \<le> \<bar>dotQ p r\<bar>"
  shows "slerp p r t = p"
  using assms by (simp add: slerp_def Let_def abs_if)

lemma slerp_near:
  assumes "t \<noteq> 0" and "t \<noteq> 1" and "\<bar>dotQ p r\<bar> < 1"
    and "1 - (dotQ p r)\<^sup>2 \<le> 1 / 2 ^ 52"
  shows "slerp p r t = normalizeQ (blendQ (1 - t) p t (towards p r))"
  using assms by (simp add: slerp_def Let_def abs_if towards_def power2_eq_square)

lemma slerp_far:
  assumes "t \<noteq> 0" and "t \<noteq> 1" and "\<bar>dotQ p r\<bar> < 1"
    and "1 / 2 ^ 52 < 1 - (dotQ p r)\<^sup>2"
  shows "slerp p r t =
     blendQ (sin ((1 - t) * atan2 (sqrt (1 - (dotQ p r)\<^sup>2)) \<bar>dotQ p r\<bar>) / sqrt (1 - (dotQ p r)\<^sup>2)) p
            (sin (t * atan2 (sqrt (1 - (dotQ p r)\<^sup>2)) \<bar>dotQ p r\<bar>) / sqrt (1 - (dotQ p r)\<^sup>2))
            (towards p r)"
  using assms by (simp add: slerp_def Let_def abs_if towards_def power2_eq_square)

lemma slerp_far_angle:
  assumes p: "dotQ p p = 1" and r: "dotQ r r = 1" and t: "0 < t" "t < 1"
    and far: "1 / 2 ^ 52 < 1 - (dotQ p r)\<^sup>2"
  defines "h \<equiv> arccos \<bar>dotQ p r\<bar>"
  shows "slerp p r t = blendQ (sin ((1 - t) * h) / sin h) p (sin (t * h) / sin h) (towards p r)"
    and "0 < h" and "h \<le> pi / 2" and "cos h = \<bar>dotQ p r\<bar>"
proof -
  define c where "c = \<bar>dotQ p r\<bar>"
  define s where "s = sqrt (1 - (dotQ p r)\<^sup>2)"
  have pos: "0 < 1 - (dotQ p r)\<^sup>2"
  proof -
    have "(0::real) < 1 / 2 ^ 52" by simp
    with far show ?thesis by linarith
  qed
  then have s0: "0 < s" by (simp add: s_def)
  have c0: "0 \<le> c" by (simp add: c_def)
  have cc: "c * c = (dotQ p r)\<^sup>2" by (simp add: c_def power2_eq_square)
  have "s * s = 1 - (dotQ p r)\<^sup>2" using pos by (simp add: s_def)
  then have sc: "s * s + c * c = 1" using cc by simp
  have c1: "c < 1"
  proof (rule ccontr)
    assume "\<not> c < 1"
    then have "1 \<le> c" by simp
    then have "1 * 1 \<le> c * c" by (intro mult_mono) simp_all
    with cc pos show False by simp
  qed
  note a = atan2_unit [OF s0 c0 sc]
  have "arccos (cos (atan2 s c)) = atan2 s c"
    using a(3) a(4) pi_gt_zero by (intro arccos_cos) linarith+
  with a(2) have "arccos c = atan2 s c" by simp
  then have h: "h = atan2 s c" by (simp add: h_def c_def)
  show "0 < h" "h \<le> pi / 2" "cos h = \<bar>dotQ p r\<bar>"
    using a by (simp_all add: h c_def)
  have "sin h = s" by (simp add: h a(1))
  moreover have "slerp p r t = blendQ (sin ((1 - t) * atan2 s c) / s) p
      (sin (t * atan2 s c) / s) (towards p r)"
    unfolding s_def c_def using t c1 far by (intro slerp_far) (simp_all add: c_def)
  ultimately show "slerp p r t
      = blendQ (sin ((1 - t) * h) / sin h) p (sin (t * h) / sin h) (towards p r)"
    by (simp add: h)
qed

lemma slerp_far_unit:
  assumes p: "dotQ p p = 1" and r: "dotQ r r = 1" and t: "0 < t" "t < 1"
    and far: "1 / 2 ^ 52 < 1 - (dotQ p r)\<^sup>2"
  shows "dotQ (slerp p r t) (slerp p r t) = 1"
    and "dotQ p (slerp p r t) = cos (t * arccos \<bar>dotQ p r\<bar>)"
    and "dotQ (slerp p r t) (towards p r) = cos ((1 - t) * arccos \<bar>dotQ p r\<bar>)"
    and "0 \<le> sin ((1 - t) * arccos \<bar>dotQ p r\<bar>) / sin (arccos \<bar>dotQ p r\<bar>)"
    and "0 \<le> sin (t * arccos \<bar>dotQ p r\<bar>) / sin (arccos \<bar>dotQ p r\<bar>)"
proof -
  define h where "h = arccos \<bar>dotQ p r\<bar>"
  define x where "x = (1 - t) * h"
  define y where "y = t * h"
  note f = slerp_far_angle [OF p r t far, folded h_def]
  have xy: "x + y = h" by (simp add: x_def y_def algebra_simps)
  have sh: "0 < sin h" using f(2) f(3) pi_gt_zero by (intro sin_gt_zero) linarith+
  have x0: "0 \<le> x" and y0: "0 \<le> y" using t f(2) by (simp_all add: x_def y_def)
  have "x \<le> h" "y \<le> h" using x0 y0 xy by linarith+
  then have xpi: "x \<le> pi" and ypi: "y \<le> pi" using f(3) pi_gt_zero by linarith+
  have sx: "0 \<le> sin x" and sy: "0 \<le> sin y"
    using x0 xpi y0 ypi by (simp_all add: sin_ge_zero)
  have q: "dotQ (towards p r) (towards p r) = 1" by (simp add: towards_unit r)
  have d: "dotQ p (towards p r) = cos (x + y)" by (simp add: dotQ_towards f(4) xy)
  have e: "slerp p r t = blendQ (sin x / sin h) p (sin y / sin h) (towards p r)"
    using f(1) by (simp add: x_def y_def)
  have ss: "(sin x)\<^sup>2 + (sin y)\<^sup>2 + 2 * sin x * sin y * cos (x + y) = (sin h)\<^sup>2"
    using sin_sum_squares [of x y] by (simp only: xy)
  have sp1: "sin x + sin y * cos (x + y) = cos y * sin h"
    using sin_plus_sin_cos [of x y] by (simp only: xy)
  have yx: "y + x = h" using xy by simp
  have sp2: "sin y + sin x * cos (y + x) = cos x * sin h"
    using sin_plus_sin_cos [of y x] by (simp only: yx)
  have "dotQ (slerp p r t) (slerp p r t)
      = ((sin x)\<^sup>2 + (sin y)\<^sup>2 + 2 * sin x * sin y * cos (x + y)) / (sin h)\<^sup>2"
    unfolding e dotQ_blendQ p q d using sh
    by (simp add: power2_eq_square field_simps)
  also have "\<dots> = 1" unfolding ss using sh by simp
  finally show "dotQ (slerp p r t) (slerp p r t) = 1" .
  have "dotQ p (slerp p r t) = (sin x + sin y * cos (x + y)) / sin h"
    unfolding e dotQ_blendQ_left p d using sh by (simp add: field_simps)
  also have "\<dots> = cos y" unfolding sp1 using sh by simp
  finally show "dotQ p (slerp p r t) = cos (t * arccos \<bar>dotQ p r\<bar>)"
    by (simp add: y_def h_def)
  have "dotQ (slerp p r t) (towards p r) = (sin y + sin x * cos (y + x)) / sin h"
    unfolding e dotQ_blendQ_right q d using sh by (simp add: field_simps add.commute)
  also have "\<dots> = cos x" unfolding sp2 using sh by simp
  finally show "dotQ (slerp p r t) (towards p r) = cos ((1 - t) * arccos \<bar>dotQ p r\<bar>)"
    by (simp add: x_def h_def)
  show "0 \<le> sin ((1 - t) * arccos \<bar>dotQ p r\<bar>) / sin (arccos \<bar>dotQ p r\<bar>)"
    using sx sh by (simp add: x_def h_def)
  show "0 \<le> sin (t * arccos \<bar>dotQ p r\<bar>) / sin (arccos \<bar>dotQ p r\<bar>)"
    using sy sh by (simp add: y_def h_def)
qed

lemma slerp_near_unit:
  assumes p: "dotQ p p = 1" and r: "dotQ r r = 1" and t: "0 < t" "t < 1"
    and c1: "\<bar>dotQ p r\<bar> < 1" and near: "1 - (dotQ p r)\<^sup>2 \<le> 1 / 2 ^ 52"
  defines "l \<equiv> sqrt (dotQ (blendQ (1 - t) p t (towards p r)) (blendQ (1 - t) p t (towards p r)))"
  shows "0 < l" and "slerp p r t = blendQ ((1 - t) / l) p (t / l) (towards p r)"
    and "dotQ (slerp p r t) (slerp p r t) = 1"
proof -
  define n where "n = dotQ (blendQ (1 - t) p t (towards p r)) (blendQ (1 - t) p t (towards p r))"
  have q: "dotQ (towards p r) (towards p r) = 1" by (simp add: towards_unit r)
  have n: "n = (1 - t) * (1 - t) + 2 * (1 - t) * t * \<bar>dotQ p r\<bar> + t * t"
    by (simp add: n_def dotQ_blendQ p q dotQ_towards)
  have "0 < (1 - t) * (1 - t)" using t by simp
  moreover have "0 \<le> 2 * (1 - t) * t * \<bar>dotQ p r\<bar>" using t by simp
  moreover have "0 < t * t" using t by simp
  ultimately have n0: "0 < n" unfolding n by linarith
  have l: "l = sqrt n" by (simp add: l_def n_def)
  show l0: "0 < l" using n0 by (simp add: l)
  have "slerp p r t = normalizeQ (blendQ (1 - t) p t (towards p r))"
    using t c1 near by (intro slerp_near) simp_all
  also have "\<dots> = scaleQ (1 / l) (blendQ (1 - t) p t (towards p r))"
    using l0 by (simp add: normalizeQ_def l_def Let_def)
  finally show e: "slerp p r t = blendQ ((1 - t) / l) p (t / l) (towards p r)"
    by (simp add: scaleQ_blendQ)
  have "dotQ (slerp p r t) (slerp p r t) = n / (l * l)"
    unfolding e dotQ_blendQ p q dotQ_towards n using l0 by (simp add: field_simps)
  also have "l * l = n" using n0 by (simp add: l)
  finally show "dotQ (slerp p r t) (slerp p r t) = 1" using n0 by simp
qed

lemma slerp_on_arc:
  assumes p: "dotQ p p = 1" and r: "dotQ r r = 1" and t: "0 < t" "t < 1"
  shows "\<exists>a b. 0 \<le> a \<and> 0 \<le> b \<and> slerp p r t = blendQ a p b (towards p r)"
    and "dotQ (slerp p r t) (slerp p r t) = 1"
proof -
  have c: "\<bar>dotQ p r\<bar> \<le> 1"
    using dotQ_unit_le [OF p r] dotQ_unit_le [OF p, of "towards p r"]
    by (simp add: towards_unit r dotQ_towards)
  consider (same) "1 \<le> \<bar>dotQ p r\<bar>"
    | (near) "\<bar>dotQ p r\<bar> < 1" "1 - (dotQ p r)\<^sup>2 \<le> 1 / 2 ^ 52"
    | (far) "1 / 2 ^ 52 < 1 - (dotQ p r)\<^sup>2"
    by linarith
  then have "(\<exists>a b. 0 \<le> a \<and> 0 \<le> b \<and> slerp p r t = blendQ a p b (towards p r))
      \<and> dotQ (slerp p r t) (slerp p r t) = 1"
  proof cases
    case same
    then have e: "slerp p r t = p" using t by (intro slerp_same) simp_all
    have "p = blendQ 1 p 0 (towards p r)" by (simp add: blendQ_left)
    then have "\<exists>a b. (0::real) \<le> a \<and> (0::real) \<le> b \<and> p = blendQ a p b (towards p r)"
      by (intro exI [of _ 1] exI [of _ 0]) simp
    then show ?thesis by (simp add: e p)
  next
    case near
    note n = slerp_near_unit [OF p r t near]
    have "0 \<le> (1 - t) / sqrt (dotQ (blendQ (1 - t) p t (towards p r)) (blendQ (1 - t) p t (towards p r)))"
      "0 \<le> t / sqrt (dotQ (blendQ (1 - t) p t (towards p r)) (blendQ (1 - t) p t (towards p r)))"
      using n(1) t by simp_all
    with n(2) n(3) show ?thesis by blast
  next
    case far
    note f = slerp_far_unit [OF p r t far]
    from slerp_far_angle(1) [OF p r t far] f(4) f(5) f(1) show ?thesis by blast
  qed
  then show "\<exists>a b. 0 \<le> a \<and> 0 \<le> b \<and> slerp p r t = blendQ a p b (towards p r)"
    and "dotQ (slerp p r t) (slerp p r t) = 1" by simp_all
qed

lemma lerpVector3_segment:
  "lerpVector3 p r t = addVectors (multiplyScalar p (1 - t)) (multiplyScalar r t)"
  by (simp add: lerpVector3_def lerpV_def addVectors_def multiplyScalar_def algebra_simps)

lemma lerpVector3_distances:
  assumes "0 \<le> t" and "t \<le> 1"
  shows "distanceTo p (lerpVector3 p r t) = t * distanceTo p r"
    and "distanceTo (lerpVector3 p r t) r = (1 - t) * distanceTo p r"
proof -
  define S where "S = (vx p - vx r) * (vx p - vx r) + (vy p - vy r) * (vy p - vy r)
      + (vz p - vz r) * (vz p - vz r)"
  have "distanceTo p (lerpVector3 p r t) = sqrt (t\<^sup>2 * S)"
    unfolding distanceTo_def lerpVector3_def lerpV_def S_def
    by (rule arg_cong [of _ _ sqrt]) (simp add: power2_eq_square algebra_simps)
  also have "\<dots> = t * sqrt S" using assms(1) by (simp add: real_sqrt_mult)
  finally show "distanceTo p (lerpVector3 p r t) = t * distanceTo p r"
    by (simp add: distanceTo_def S_def)
  have "distanceTo (lerpVector3 p r t) r = sqrt ((1 - t)\<^sup>2 * S)"
    unfolding distanceTo_def lerpVector3_def lerpV_def S_def
    by (rule arg_cong [of _ _ sqrt]) (simp add: power2_eq_square algebra_simps)
  also have "\<dots> = (1 - t) * sqrt S" using assms(2) by (simp add: real_sqrt_mult)
  finally show "distanceTo (lerpVector3 p r t) r = (1 - t) * distanceTo p r"
    by (simp add: distanceTo_def S_def)
qed

lemma processHand_smoothing:
  assumes "processHand lms c (Some h) = Some d"
  shows "\<exists>raw. calculateRotation lms = Some raw
     \<and> rotation d = lerpQuaternion (rotation h) raw SMOOTHING_FACTOR
     \<and> palmPosition d = lerpVector3 (palmPosition h) (toVector3 (lms ! 0)) SMOOTHING_FACTOR
     \<and> pinchPosition d = lerpVector3 (pinchPosition h)
          (multiplyScalar (addVectors (toVector3 (lms ! 4)) (toVector3 (lms ! 8))) 0.5)
          SMOOTHING_FACTOR"
  using assms unfolding processHand_def
  by (auto simp: Let_def landmarkAt_Some split: bind_splits)

text \<open>
  Claim C7. The smoothed position is the point \<open>0.85 P + 0.15 R\<close> of the segment from the
  previous value \<open>P\<close> to the raw value \<open>R\<close>: its distances to \<open>P\<close> and to \<open>R\<close> are 0.15 and
  0.85 of the distance between the two, so it passes neither end. For unit quaternions
  \<open>P\<close> and \<open>R\<close> the smoothed orientation is again a unit quaternion and a combination
  \<open>a P + b R'\<close> with \<open>a, b \<ge> 0\<close>, where \<open>R'\<close> is the representative \<open>R\<close> or \<open>-R\<close> of the raw
  orientation nearer to \<open>P\<close>; so it lies on the great-circle arc from \<open>P\<close> to \<open>R'\<close>, no
  farther from either end than the two are from each other. Unless the two are closer than
  the library's threshold for a plain normalised blend, its angles to \<open>P\<close> and to \<open>R'\<close> are
  0.15 and 0.85 of the angle between them. These are the values \<open>processHand\<close> stores when
  a previous hand is known.
\<close>

theorem smoothing_stays_between:
  "lerpVector3 p r SMOOTHING_FACTOR = addVectors (multiplyScalar p 0.85) (multiplyScalar r 0.15)
   \<and> distanceTo p (lerpVector3 p r SMOOTHING_FACTOR) = 0.15 * distanceTo p r
   \<and> distanceTo (lerpVector3 p r SMOOTHING_FACTOR) r = 0.85 * distanceTo p r
   \<and> (dotQ P P = 1 \<and> dotQ R R = 1 \<longrightarrow>
        (\<exists>a b. 0 \<le> a \<and> 0 \<le> b
           \<and> lerpQuaternion P R SMOOTHING_FACTOR = blendQ a P b (towards P R))
        \<and> dotQ (lerpQuaternion P R SMOOTHING_FACTOR) (lerpQuaternion P R SMOOTHING_FACTOR) = 1
        \<and> dotQ P (towards P R) \<le> dotQ P (lerpQuaternion P R SMOOTHING_FACTOR)
        \<and> dotQ P (towards P R) \<le> dotQ (lerpQuaternion P R SMOOTHING_FACTOR) (towards P R)
        \<and> (1 / 2 ^ 52 < 1 - (dotQ P R)\<^sup>2 \<longrightarrow>
             dotQ P (lerpQuaternion P R SMOOTHING_FACTOR) = cos (0.15 * arccos \<bar>dotQ P R\<bar>)
             \<and> dotQ (lerpQuaternion P R SMOOTHING_FACTOR) (towards P R)
                 = cos (0.85 * arccos \<bar>dotQ P R\<bar>)))
   \<and> (\<forall>h d. processHand lms c (Some h) = Some d \<longrightarrow>
        (\<exists>raw. calculateRotation lms = Some raw
           \<and> rotation d = lerpQuaternion (rotation h) raw SMOOTHING_FACTOR
           \<and> palmPosition d
               = lerpVector3 (palmPosition h) (toVector3 (lms ! 0)) SMOOTHING_FACTOR
           \<and> pinchPosition d = lerpVector3 (pinchPosition h)
               (multiplyScalar (addVectors (toVector3 (lms ! 4)) (toVector3 (lms ! 8))) 0.5)
               SMOOTHING_FACTOR))"
proof -
  have t: "(0::real) < 0.15" "(0.15::real) < 1" "(0::real) \<le> 0.15" "(0.15::real) \<le> 1"
    by simp_all
  have seg: "lerpVector3 p r SMOOTHING_FACTOR
      = addVectors (multiplyScalar p 0.85) (multiplyScalar r 0.15)"
    using lerpVector3_segment [of p r "0.15"] by (simp add: SMOOTHING_FACTOR_def)
  have dist: "distanceTo p (lerpVector3 p r SMOOTHING_FACTOR) = 0.15 * distanceTo p r"
    "distanceTo (lerpVector3 p r SMOOTHING_FACTOR) r = 0.85 * distanceTo p r"
    using lerpVector3_distances [OF t(3) t(4), of p r] by (simp_all add: SMOOTHING_FACTOR_def)
  have quat: "dotQ P P = 1 \<and> dotQ R R = 1 \<longrightarrow>
        (\<exists>a b. 0 \<le> a \<and> 0 \<le> b
           \<and> lerpQuaternion P R SMOOTHING_FACTOR = blendQ a P b (towards P R))
        \<and> dotQ (lerpQuaternion P R SMOOTHING_FACTOR) (lerpQuaternion P R SMOOTHING_FACTOR) = 1
        \<and> dotQ P (towards P R) \<le> dotQ P (lerpQuaternion P R SMOOTHING_FACTOR)
        \<and> dotQ P (towards P R) \<le> dotQ (lerpQuaternion P R SMOOTHING_FACTOR) (towards P R)
        \<and> (1 / 2 ^ 52 < 1 - (dotQ P R)\<^sup>2 \<longrightarrow>
             dotQ P (lerpQuaternion P R SMOOTHING_FACTOR) = cos (0.15 * arccos \<bar>dotQ P R\<bar>)
             \<and> dotQ (lerpQuaternion P R SMOOTHING_FACTOR) (towards P R)
                 = cos (0.85 * arccos \<bar>dotQ P R\<bar>))"
  proof
    assume "dotQ P P = 1 \<and> dotQ R R = 1"
    then have P: "dotQ P P = 1" and R: "dotQ R R = 1" by simp_all
    define out where "out = lerpQuaternion P R SMOOTHING_FACTOR"
    have out: "out = slerp P R 0.15"
      by (simp add: out_def lerpQuaternion_def SMOOTHING_FACTOR_def)
    have R': "dotQ (towards P R) (towards P R) = 1" by (simp add: towards_unit R)
    have c: "0 \<le> dotQ P (towards P R)" by (simp add: dotQ_towards)
    from slerp_on_arc(1) [OF P R t(1) t(2)] obtain a b where
      ab: "0 \<le> a" "0 \<le> b" "out = blendQ a P b (towards P R)" unfolding out by blast
    have u: "dotQ out out = 1" unfolding out by (rule slerp_on_arc(2) [OF P R t(1) t(2)])
    then have u': "dotQ (blendQ a P b (towards P R)) (blendQ a P b (towards P R)) = 1"
      by (simp add: ab(3))
    note arc = on_arc [OF P R' ab(1) ab(2) c u', folded ab(3)]
    have far: "1 / 2 ^ 52 < 1 - (dotQ P R)\<^sup>2 \<longrightarrow>
             dotQ P out = cos (0.15 * arccos \<bar>dotQ P R\<bar>)
             \<and> dotQ out (towards P R) = cos (0.85 * arccos \<bar>dotQ P R\<bar>)"
    proof
      assume f: "1 / 2 ^ 52 < 1 - (dotQ P R)\<^sup>2"
      from slerp_far_unit(2) [OF P R t(1) t(2) f] slerp_far_unit(3) [OF P R t(1) t(2) f]
      show "dotQ P out = cos (0.15 * arccos \<bar>dotQ P R\<bar>)
             \<and> dotQ out (towards P R) = cos (0.85 * arccos \<bar>dotQ P R\<bar>)"
        by (simp add: out)
    qed
    from ab u arc far show "(\<exists>a b. 0 \<le> a \<and> 0 \<le> b
           \<and> lerpQuaternion P R SMOOTHING_FACTOR = blendQ a P b (towards P R))
        \<and> dotQ (lerpQuaternion P R SMOOTHING_FACTOR) (lerpQuaternion P R SMOOTHING_FACTOR) = 1
        \<and> dotQ P (towards P R) \<le> dotQ P (lerpQuaternion P R SMOOTHING_FACTOR)
        \<and> dotQ P (towards P R) \<le> dotQ (lerpQuaternion P R SMOOTHING_FACTOR) (towards P R)
        \<and> (1 / 2 ^ 52 < 1 - (dotQ P R)\<^sup>2 \<longrightarrow>
             dotQ P (lerpQuaternion P R SMOOTHING_FACTOR) = cos (0.15 * arccos \<bar>dotQ P R\<bar>)
             \<and> dotQ (lerpQuaternion P R SMOOTHING_FACTOR) (towards P R)
                 = cos (0.85 * arccos \<bar>dotQ P R\<bar>))"
      unfolding out_def by blast
  qed
  have hand: "\<forall>h d. processHand lms c (Some h) = Some d \<longrightarrow>
        (\<exists>raw. calculateRotation lms = Some raw
           \<and> rotation d = lerpQuaternion (rotation h) raw SMOOTHING_FACTOR
           \<and> palmPosition d
               = lerpVector3 (palmPosition h) (toVector3 (lms ! 0)) SMOOTHING_FACTOR
           \<and> pinchPosition d = lerpVector3 (pinchPosition h)
               (multiplyScalar (addVectors (toVector3 (lms ! 4)) (toVector3 (lms ! 8))) 0.5)
               SMOOTHING_FACTOR)"
    using processHand_smoothing by blast
  from seg dist quat hand show ?thesis by (intro conjI)
qed

theorem smoothing_stays_between_witness:
  "distanceTo \<lparr>vx = 0, vy = 0, vz = 0\<rparr>
      (lerpVector3 \<lparr>vx = 0, vy = 0, vz = 0\<rparr> \<lparr>vx = 1, vy = 2, vz = 2\<rparr> SMOOTHING_FACTOR) = 0.45
   \<and> dotQ \<lparr>qx = 0, qy = 0, qz = 0, qw = 1\<rparr> \<lparr>qx = 0, qy = 0, qz = 0, qw = 1\<rparr> = 1
   \<and> dotQ \<lparr>qx = 0, qy = 0, qz = - 0.6, qw = - 0.8\<rparr> \<lparr>qx = 0, qy = 0, qz = - 0.6, qw = - 0.8\<rparr> = 1
   \<and> towards \<lparr>qx = 0, qy = 0, qz = 0, qw = 1\<rparr> \<lparr>qx = 0, qy = 0, qz = - 0.6, qw = - 0.8\<rparr>
       = \<lparr>qx = 0, qy = 0, qz = 0.6, qw = 0.8\<rparr>
   \<and> dotQ (lerpQuaternion \<lparr>qx = 0, qy = 0, qz = 0, qw = 1\<rparr>
              \<lparr>qx = 0, qy = 0, qz = - 0.6, qw = - 0.8\<rparr> SMOOTHING_FACTOR)
           (lerpQuaternion \<lparr>qx = 0, qy = 0, qz = 0, qw = 1\<rparr>
              \<lparr>qx = 0, qy = 0, qz = - 0.6, qw = - 0.8\<rparr> SMOOTHING_FACTOR) = 1
   \<and> dotQ \<lparr>qx = 0, qy = 0, qz = 0, qw = 1\<rparr>
        (lerpQuaternion \<lparr>qx = 0, qy = 0, qz = 0, qw = 1\<rparr>
           \<lparr>qx = 0, qy = 0, qz = - 0.6, qw = - 0.8\<rparr> SMOOTHING_FACTOR)
       = cos (0.15 * arccos 0.8)
   \<and> (\<exists>d. processHand (fourFingerHand 0) Left (Some (sampleHand Left False 0 0)) = Some d
          \<and> palmPosition d = \<lparr>vx = 0.075, vy = 0.135, vz = 0\<rparr>)"
proof -
  let ?p = "\<lparr>vx = 0, vy = 0, vz = 0\<rparr>" and ?r = "\<lparr>vx = 1, vy = 2, vz = 2\<rparr>"
  let ?P = "\<lparr>qx = 0, qy = 0, qz = 0, qw = 1\<rparr>"
  let ?R = "\<lparr>qx = 0, qy = 0, qz = - 0.6, qw = - 0.8\<rparr>"
  let ?out = "lerpQuaternion ?P ?R SMOOTHING_FACTOR"
  obtain d where d: "processHand (fourFingerHand 0) Left (Some (sampleHand Left False 0 0)) = Some d"
    using processHand_total [of "fourFingerHand 0" Left "Some (sampleHand Left False 0 0)"]
    by (auto simp: fourFingerHand_def)
  have P: "dotQ ?P ?P = 1" and R: "dotQ ?R ?R = 1" and PR: "dotQ ?P ?R = - 0.8"
    by (simp_all add: dotQ_def)
  have far: "1 / 2 ^ 52 < 1 - (dotQ ?P ?R)\<^sup>2" unfolding PR by (simp add: power2_eq_square)
  have tw: "towards ?P ?R = \<lparr>qx = 0, qy = 0, qz = 0.6, qw = 0.8\<rparr>"
    by (simp add: towards_def dotQ_def scaleQ_def)
  have "sqrt 9 = 3" by (rule real_sqrt_unique) simp_all
  then have dist: "distanceTo ?p ?r = 3" by (simp add: distanceTo_def)
  from smoothing_stays_between [of ?p ?r ?P ?R "fourFingerHand 0" Left] have
    1: "distanceTo ?p (lerpVector3 ?p ?r SMOOTHING_FACTOR) = 0.15 * distanceTo ?p ?r"
    and 2: "dotQ ?P ?P = 1 \<and> dotQ ?R ?R = 1 \<longrightarrow>
        dotQ ?out ?out = 1
        \<and> (1 / 2 ^ 52 < 1 - (dotQ ?P ?R)\<^sup>2 \<longrightarrow>
             dotQ ?P ?out = cos (0.15 * arccos \<bar>dotQ ?P ?R\<bar>))"
    and 3: "\<forall>h d. processHand (fourFingerHand 0) Left (Some h) = Some d \<longrightarrow>
        palmPosition d
          = lerpVector3 (palmPosition h) (toVector3 (fourFingerHand 0 ! 0)) SMOOTHING_FACTOR"
    by blast+
  have a: "distanceTo ?p (lerpVector3 ?p ?r SMOOTHING_FACTOR) = 0.45"
    using 1 by (simp add: dist)
  have b0: "dotQ ?out ?out = 1 \<and> dotQ ?P ?out = cos (0.15 * arccos \<bar>dotQ ?P ?R\<bar>)"
    using 2 P R far by blast
  have ab: "\<bar>dotQ ?P ?R\<bar> = 0.8" by (simp add: dotQ_def)
  have b: "dotQ ?out ?out = 1" "dotQ ?P ?out = cos (0.15 * arccos 0.8)"
    using b0 unfolding ab by blast+
  have "palmPosition d
      = lerpVector3 (palmPosition (sampleHand Left False 0 0)) (toVector3 (fourFingerHand 0 ! 0))
          SMOOTHING_FACTOR"
    using 3 d by blast
  then have c: "palmPosition d = \<lparr>vx = 0.075, vy = 0.135, vz = 0\<rparr>"
    by (simp add: sampleHand_def fourFingerHand_def lm2_def toVector3_def lerpVector3_def
        lerpV_def SMOOTHING_FACTOR_def)
  from a P R tw b c d show ?thesis by blast
qed

section \<open>The solar system scene: choosing Mars\<close>

lemma length_PLANETS: "length PLANETS = 6"
  by (simp add: PLANETS_def)

lemma enumerate_PLANETS:
  "zip [0 ..< length PLANETS] PLANETS =
     [(0, PLANETS ! 0), (1, PLANETS ! 1), (2, PLANETS ! 2), (3, PLANETS ! 3),
      (4, PLANETS ! 4), (5, PLANETS ! 5)]"
  by (simp add: PLANETS_def upt_rec)

lemma orbit_Some:
  assumes "length angles = 6" and "length positions = 6"
  shows "\<exists>angles' positions'.
     orbit delta (zip [0 ..< length PLANETS] PLANETS) (angles, positions)
       = Some (angles', positions')
     \<and> length angles' = 6 \<and> length positions' = 6
     \<and> angles' ! 0 = angles ! 0 \<and> positions' ! 0 = \<lparr>vx = 0, vy = 0, vz = 0\<rparr>
     \<and> (\<forall>i. 0 < i \<and> i < 6 \<longrightarrow>
           angles' ! i = angles ! i + speed (PLANETS ! i) * delta * 0.5
           \<and> positions' ! i = orbitPosition i (angles' ! i))"
proof -
  have six: "\<And>i::nat. 0 < i \<and> i < 6 \<longleftrightarrow> i = 1 \<or> i = 2 \<or> i = 3 \<or> i = 4 \<or> i = 5"
    by auto
  show ?thesis
    unfolding enumerate_PLANETS six using assms
    by (simp add: Let_def orbitPosition_def)
qed

lemma navigate_less: "target < length PLANETS \<Longrightarrow> navigate hs target < length PLANETS"
  by (simp add: navigate_def split: option.splits)


lemma pinchOrbit_keeps:
  "radius (pinchOrbit hs delta cam) = radius cam"
  "targetLookAt (pinchOrbit hs delta cam) = targetLookAt cam"
  by (simp_all add: pinchOrbit_def Let_def split: option.splits)

lemma solarFrame_step:
  assumes "wellFormed s"
  shows "\<exists>s'. solarFrame hs delta s = Some s' \<and> wellFormed s'
     \<and> targetIndex s' = navigate hs (targetIndex s)
     \<and> planetAngles s' ! 0 = planetAngles s ! 0
     \<and> planetPositions s' ! 0 = \<lparr>vx = 0, vy = 0, vz = 0\<rparr>
     \<and> (\<forall>i. 0 < i \<and> i < 6 \<longrightarrow>
           planetAngles s' ! i = planetAngles s ! i + speed (PLANETS ! i) * delta * 0.5
           \<and> planetPositions s' ! i = orbitPosition i (planetAngles s' ! i))
     \<and> radius (camState s') = lerp (radius (camState s)) (idealRadius (targetIndex s)) 0.05
     \<and> targetLookAt (camState s')
         = lerpV (targetLookAt (camState s)) (planetPositions s' ! targetIndex s) 0.05
     \<and> cameraLookAt s' = targetLookAt (camState s')"
proof -
  have len: "length (planetAngles s) = 6" "length (planetPositions s) = 6"
    and t: "targetIndex s < 6"
    using assms by (simp_all add: wellFormed_def length_PLANETS)
  from orbit_Some [OF len, of delta] obtain angles' positions' where
    o: "orbit delta (zip [0 ..< length PLANETS] PLANETS) (planetAngles s, planetPositions s)
          = Some (angles', positions')"
    and l: "length angles' = 6" "length positions' = 6"
    and z: "angles' ! 0 = planetAngles s ! 0" "positions' ! 0 = \<lparr>vx = 0, vy = 0, vz = 0\<rparr>"
    and m: "\<forall>i. 0 < i \<and> i < 6 \<longrightarrow>
           angles' ! i = planetAngles s ! i + speed (PLANETS ! i) * delta * 0.5
           \<and> positions' ! i = orbitPosition i (angles' ! i)"
    by blast
  define cam where "cam = pinchOrbit hs delta (camState s)"
  define lookAt where "lookAt = lerpV (targetLookAt cam) (positions' ! targetIndex s) 0.05"
  define r where "r = lerp (radius cam) (idealRadius (targetIndex s)) 0.05"
  define camPos where "camPos = lerpV (cameraPosition s)
      (addVectors lookAt \<lparr>vx = r * sin (phi cam) * sin (theta cam), vy = r * cos (phi cam),
         vz = r * sin (phi cam) * cos (theta cam)\<rparr>) 0.1"
  have c: "cameraTransition (targetIndex s) positions' cam (cameraPosition s)
      = Some (cam\<lparr>targetLookAt := lookAt, radius := r\<rparr>, camPos, lookAt)"
    using t l by (simp add: cameraTransition_def length_PLANETS Let_def lookAt_def r_def camPos_def)
  define s' where "s' = \<lparr>targetIndex = navigate hs (targetIndex s), planetAngles = angles',
      planetPositions = positions', camState = cam\<lparr>targetLookAt := lookAt, radius := r\<rparr>,
      cameraPosition = camPos, cameraLookAt = lookAt\<rparr>"
  have f: "solarFrame hs delta s = Some s'"
    by (simp add: solarFrame_def o c cam_def [symmetric] s'_def)
  have w: "wellFormed s'"
    using l navigate_less [of "targetIndex s" hs] t
    by (simp add: wellFormed_def s'_def length_PLANETS)
  have "radius (camState s') = lerp (radius (camState s)) (idealRadius (targetIndex s)) 0.05"
    "targetLookAt (camState s')
         = lerpV (targetLookAt (camState s)) (planetPositions s' ! targetIndex s) 0.05"
    "cameraLookAt s' = targetLookAt (camState s')"
    by (simp_all add: s'_def r_def lookAt_def cam_def pinchOrbit_keeps)
  with f w z m show ?thesis by (intro exI [of _ s']) (simp add: s'_def)
qed





text \<open>The run while the target stays on Mars.\<close>

lemma solarRun_total:
  assumes "wellFormed s"
  shows "\<exists>sn. solarRun ins n s = Some sn \<and> wellFormed sn"
proof (induction n)
  case 0
  with assms show ?case by simp
next
  case (Suc n)
  then obtain sn where sn: "solarRun ins n s = Some sn" "wellFormed sn" by blast
  from solarFrame_step [OF sn(2), of "fst (ins n)" "snd (ins n)"] sn(1)
  show ?case by auto
qed


























end
